theory Spec2Isabelle
  imports Main "HOL-Library.Sublist" "HOL-Library.Word"
begin

section \<open>The Arduino String operations used by JsonTranslator\<close>

text \<open>
  JsonTranslator.cpp works on Arduino \<open>String\<close> values through \<open>length\<close>, \<open>+\<close>,
  \<open>indexOf\<close> and \<open>substring\<close>. A \<open>String\<close> is modelled as a \<open>char list\<close>; \<open>+\<close> is
  \<open>@\<close>. The indices of the source are \<open>int32_t\<close>; a message is far shorter than
  \<open>2 ^ 31\<close> characters on the target, so index arithmetic never wraps and the indices
  are modelled as \<open>int\<close>. The one conversion that can change a value, an \<open>int32_t\<close>
  passed where \<open>String\<close> takes an \<open>unsigned int\<close>, is written out as \<open>to_unsigned\<close>.
\<close>

text \<open>
  Modelled from the spec: the C library search \<open>strchr\<close> behind \<open>String::indexOf(char)\<close> is
  not among the sources. The spec has the locator "scan forward for the next" delimiter, so
  the result is the offset of the first character equal to \<open>ch\<close>, and \<open>None\<close> (a null
  pointer) when there is none.
\<close>

primrec strchr :: "string \<Rightarrow> char \<Rightarrow> nat option" where
  "strchr [] ch = None"
| "strchr (c # cs) ch = (if c = ch then Some 0 else map_option Suc (strchr cs ch))"

text \<open>
  Modelled from the spec: the C library search \<open>strstr\<close> behind \<open>String::indexOf(String)\<close> is
  not among the sources. The spec has the locator "locate fieldName", so the result is the
  offset of the first position at which \<open>p\<close> is a prefix of the rest, and \<open>None\<close> when
  \<open>p\<close> does not occur.
\<close>

primrec strstr :: "string \<Rightarrow> string \<Rightarrow> nat option" where
  "strstr [] p = (if p = [] then Some 0 else None)"
| "strstr (c # cs) p = (if prefix p (c # cs) then Some 0 else map_option Suc (strstr cs p))"

text \<open>An \<open>int32_t\<close> argument converted to the \<open>unsigned int\<close> parameter of a \<open>String\<close> method.\<close>

definition to_unsigned :: "int \<Rightarrow> nat" where
  "to_unsigned i = (if i < 0 then nat (i + 2 ^ 32) else nat i)"

text \<open>
  Modelled from the spec: the class \<open>String\<close> (\<open>indexOf\<close>, \<open>substring\<close>) is not among the
  sources. \<open>indexOf\<close> answers \<open>-1\<close> when the start index is not inside the string or when
  nothing is found, otherwise the index of the first occurrence at or after the start index.
\<close>

definition indexOfChar :: "string \<Rightarrow> char \<Rightarrow> nat \<Rightarrow> int" where
  "indexOfChar s ch fromIndex =
     (if length s \<le> fromIndex then - 1
      else case strchr (drop fromIndex s) ch of
             None \<Rightarrow> - 1
           | Some k \<Rightarrow> int (fromIndex + k))"

definition indexOf :: "string \<Rightarrow> string \<Rightarrow> nat \<Rightarrow> int" where
  "indexOf s p fromIndex =
     (if length s \<le> fromIndex then - 1
      else case strstr (drop fromIndex s) p of
             None \<Rightarrow> - 1
           | Some k \<Rightarrow> int (fromIndex + k))"

text \<open>
  Modelled from the spec: \<open>String::substring(left, right)\<close> is not among the sources. It is
  the text from index \<open>left\<close> up to, not including, index \<open>right\<close>; the Arduino class
  exchanges the two indices when \<open>left > right\<close>, answers the empty string when \<open>left\<close> is
  not inside the string, and cuts \<open>right\<close> down to the length.
\<close>

definition substring :: "string \<Rightarrow> nat \<Rightarrow> nat \<Rightarrow> string" where
  "substring s left right =
     (let l = (if right < left then right else left);
          r = (if right < left then left else right)
      in if length s \<le> l then []
         else take (min r (length s) - l) (drop l s))"

text \<open>\<open>String::substring(beginIndex)\<close> is \<open>substring(beginIndex, length())\<close>.\<close>

definition substringFrom :: "string \<Rightarrow> nat \<Rightarrow> string" where
  "substringFrom s beginIndex = substring s beginIndex (length s)"

section \<open>Field locator\<close>

definition getStartIndex :: "string \<Rightarrow> string \<Rightarrow> int \<Rightarrow> int" where
  "getStartIndex jsonString valueIdentifier searchStartIndex =
     (let startIndex = indexOf jsonString valueIdentifier (to_unsigned searchStartIndex)
      in if startIndex < 0 then startIndex
         else startIndex + int (length valueIdentifier) + 1)"

definition getEndIndex :: "string \<Rightarrow> int \<Rightarrow> int" where
  "getEndIndex jsonString searchStartIndex =
     (let endIndex = indexOfChar jsonString (CHR '','') (to_unsigned searchStartIndex);
          endIndex = (if endIndex < 0
                      then indexOfChar jsonString (CHR ''}'') (to_unsigned searchStartIndex)
                      else endIndex)
      in endIndex - 1)"

section \<open>Constants and collaborators declared outside JsonTranslator.cpp\<close>

text \<open>
  Modelled from the spec: the field identifiers are declared in JsonTranslator.h, which is
  not among the sources. \<open>createJsonPair\<close> appends a quotation mark, the value and
  \<open>",\<close> to the identifier, and the comment in \<open>createEncryptedConnectionInfo\<close> shows the
  result \<open>"nonce":"1F2",\<close>, so an identifier is the quoted field name followed by a colon.
  The names are the ones the spec lists.
\<close>

definition jsonConnectionState :: string where
  \<open>jsonConnectionState = ''"connectionState":''\<close>

definition jsonPassword :: string where
  \<open>jsonPassword = ''"password":''\<close>

definition jsonOwnSessionKey :: string where
  \<open>jsonOwnSessionKey = ''"ownSK":''\<close>

definition jsonPeerSessionKey :: string where
  \<open>jsonPeerSessionKey = ''"peerSK":''\<close>

definition jsonPeerStaMac :: string where
  \<open>jsonPeerStaMac = ''"peerStaMac":''\<close>

definition jsonPeerApMac :: string where
  \<open>jsonPeerApMac = ''"peerApMac":''\<close>

definition jsonDuration :: string where
  \<open>jsonDuration = ''"duration":''\<close>

definition jsonNonce :: string where
  \<open>jsonNonce = ''"nonce":''\<close>

definition jsonHmac :: string where
  \<open>jsonHmac = ''"hmac":''\<close>

definition jsonDesync :: string where
  \<open>jsonDesync = ''"desync":''\<close>

definition jsonUnsynchronizedMessageID :: string where
  \<open>jsonUnsynchronizedMessageID = ''"unsynchronizedMessageID":''\<close>

definition jsonMeshMessageCount :: string where
  \<open>jsonMeshMessageCount = ''"meshMessageCount":''\<close>

text \<open>
  Modelled from the spec: \<open>CryptoInterface::SHA256_NATURAL_LENGTH\<close> is declared outside the
  sources; it is "the hash's natural byte length", 32 bytes for SHA-256.
\<close>

definition SHA256_NATURAL_LENGTH :: nat where
  "SHA256_NATURAL_LENGTH = 32"

text \<open>
  What JsonTranslator.cpp takes from other translation units and from the device. The
  spec treats these as external collaborators known only by their interface, so they are
  parameters of the model: the header constant of EspnowProtocolInterpreter, the conversion
  functions of TypeConversionFunctions, the HMAC primitives of MeshCryptoInterface, and the
  two hardware addresses that \<open>WiFi.macAddress\<close> and \<open>WiFi.softAPmacAddress\<close> read.
  A key or address passed as \<open>const uint8_t *\<close> is the list of its bytes; \<open>stringToMac\<close>
  takes the caller's array and returns it as written.
\<close>

record collaborators =
  temporaryEncryptionRequestHeader :: string
  uint64ToString :: "64 word \<Rightarrow> string"
  stringToUint64 :: "string \<Rightarrow> 64 word"
  macToString :: "8 word list \<Rightarrow> string"
  stringToMac :: "string \<Rightarrow> 8 word list \<Rightarrow> 8 word list"
  createMeshHmac :: "string \<Rightarrow> 8 word list \<Rightarrow> 8 word \<Rightarrow> string"
  verifyMeshHmac :: "string \<Rightarrow> string \<Rightarrow> 8 word list \<Rightarrow> 8 word \<Rightarrow> bool"
  macAddress :: "8 word list"
  softAPmacAddress :: "8 word list"

section \<open>Numbers as text\<close>

text \<open>
  Modelled from the spec: the constructor \<open>String(uint32_t)\<close> is not among the sources; the
  spec has numeric values "rendered as their base-10 decimal text form".
\<close>

fun decimalString :: "nat \<Rightarrow> string" where
  "decimalString n =
     (if n < 10 then [''0123456789'' ! n]
      else decimalString (n div 10) @ [''0123456789'' ! (n mod 10)])"

declare decimalString.simps [simp del]

definition String_uint32 :: "32 word \<Rightarrow> string" where
  "String_uint32 v = decimalString (unat v)"

text \<open>
  The C library function \<open>strtoul(s, nullptr, 0)\<close> on a target whose \<open>unsigned long\<close> has
  32 bits: white space is skipped, a sign is accepted, base 0 selects hexadecimal after
  \<open>0x\<close> or \<open>0X\<close>, octal after a leading \<open>0\<close> and decimal otherwise, digits are read while
  they are valid in that base, and a value that does not fit is \<open>ULONG_MAX\<close>. The end of
  the list stands for the terminating NUL, which is no digit.
\<close>

definition ULONG_MAX :: nat where
  "ULONG_MAX = 2 ^ 32 - 1"

definition isspace :: "char \<Rightarrow> bool" where
  "isspace c \<longleftrightarrow> c = CHR '' '' \<or> (9 \<le> (of_char c :: nat) \<and> (of_char c :: nat) \<le> 13)"

definition digitValue :: "char \<Rightarrow> nat option" where
  "digitValue c =
     (let n = of_char c :: nat
      in if 48 \<le> n \<and> n \<le> 57 then Some (n - 48)
         else if 65 \<le> n \<and> n \<le> 90 then Some (n - 55)
         else if 97 \<le> n \<and> n \<le> 122 then Some (n - 87)
         else None)"

fun strtoul_digits :: "nat \<Rightarrow> string \<Rightarrow> nat \<Rightarrow> bool \<Rightarrow> nat \<times> bool" where
  "strtoul_digits base [] acc overflow = (acc, overflow)"
| "strtoul_digits base (c # cs) acc overflow =
     (case digitValue c of
        None \<Rightarrow> (acc, overflow)
      | Some d \<Rightarrow>
          if base \<le> d then (acc, overflow)
          else if overflow \<or> ULONG_MAX div base < acc
                  \<or> (acc = ULONG_MAX div base \<and> ULONG_MAX mod base < d)
               then strtoul_digits base cs acc True
               else strtoul_digits base cs (acc * base + d) False)"

definition strtoul :: "string \<Rightarrow> 32 word" where
  "strtoul nptr =
     (let s = dropWhile isspace nptr;
          neg = (s \<noteq> [] \<and> hd s = CHR ''-'');
          s = (if s \<noteq> [] \<and> (hd s = CHR ''-'' \<or> hd s = CHR ''+'') then tl s else s);
          hex = (2 \<le> length s \<and> hd s = CHR ''0'' \<and> (s ! 1 = CHR ''x'' \<or> s ! 1 = CHR ''X''));
          base = (if hex then 16 else if s \<noteq> [] \<and> hd s = CHR ''0'' then 8 else 10);
          s = (if hex then drop 2 s else s);
          (acc, overflow) = strtoul_digits base s 0 False
      in if overflow then word_of_nat ULONG_MAX
         else if neg then - word_of_nat acc
         else word_of_nat acc)"

text \<open>
  The spec's words for the numeric getters, "read leading digits, stop at first non-digit",
  with the digits read in base 10 as the wire format has them.
\<close>

definition isDecimalDigit :: "char \<Rightarrow> bool" where
  "isDecimalDigit c \<longleftrightarrow> 48 \<le> (of_char c :: nat) \<and> (of_char c :: nat) \<le> 57"

definition leadingDigitsValue :: "string \<Rightarrow> nat" where
  "leadingDigitsValue s =
     foldl (\<lambda>a c. a * 10 + (of_char c - 48)) 0 (takeWhile isDecimalDigit s)"

section \<open>Pair encoder and message composer\<close>

definition createJsonPair :: "string \<Rightarrow> string \<Rightarrow> string" where
  \<open>createJsonPair valueIdentifier value = valueIdentifier @ [CHR ''"''] @ value @ ''",''\<close>

definition createJsonEndPair :: "string \<Rightarrow> string \<Rightarrow> string" where
  \<open>createJsonEndPair valueIdentifier value = valueIdentifier @ [CHR ''"''] @ value @ ''"}}''\<close>

definition createEncryptedConnectionInfo ::
  "collaborators \<Rightarrow> string \<Rightarrow> string \<Rightarrow> string \<Rightarrow> 64 word \<Rightarrow> 64 word \<Rightarrow> string" where
  \<open>createEncryptedConnectionInfo E infoHeader requestNonce authenticationPassword
       ownSessionKey peerSessionKey =
     infoHeader @ ''{"arguments":{''
     @ createJsonPair jsonNonce requestNonce
     @ createJsonPair jsonPassword authenticationPassword
     @ createJsonPair jsonOwnSessionKey (uint64ToString E peerSessionKey)
     @ createJsonEndPair jsonPeerSessionKey (uint64ToString E ownSessionKey)\<close>

definition createEncryptionRequestIntro :: "collaborators \<Rightarrow> string \<Rightarrow> 32 word \<Rightarrow> string" where
  \<open>createEncryptionRequestIntro E requestHeader duration =
     requestHeader @ ''{"arguments":{''
     @ (if requestHeader = temporaryEncryptionRequestHeader E
        then createJsonPair jsonDuration (String_uint32 duration)
        else [])\<close>

definition createEncryptionRequestEnding :: "string \<Rightarrow> string" where
  "createEncryptionRequestEnding requestNonce = createJsonEndPair jsonNonce requestNonce"

definition createEncryptionRequestHmacMessage ::
  "collaborators \<Rightarrow> string \<Rightarrow> string \<Rightarrow> 8 word list \<Rightarrow> 8 word \<Rightarrow> 32 word \<Rightarrow> string" where
  "createEncryptionRequestHmacMessage E requestHeader requestNonce hashKey hashKeyLength duration =
     (let mainMessage = createEncryptionRequestIntro E requestHeader duration
                        @ createJsonPair jsonNonce requestNonce;
          requesterStaApMac = macToString E (macAddress E) @ macToString E (softAPmacAddress E);
          hmac = createMeshHmac E (requesterStaApMac @ mainMessage) hashKey hashKeyLength
      in mainMessage @ createJsonEndPair jsonHmac hmac)"

section \<open>Typed field extractor\<close>

text \<open>
  A getter of the source returns \<open>bool\<close> and writes through a reference or pointer
  parameter. In the model it takes the caller's current value of that parameter and
  returns the \<open>bool\<close> together with the value the parameter holds afterwards.
  The default \<open>searchStartIndex\<close> of \<open>getStartIndex\<close> and the default start of
  \<open>indexOf\<close> are 0.
\<close>

definition getConnectionState :: "string \<Rightarrow> string \<Rightarrow> bool \<times> string" where
  "getConnectionState jsonString result =
     (let startIndex = indexOf jsonString jsonConnectionState 0
      in if startIndex < 0 then (False, result)
         else let endIndex = indexOfChar jsonString (CHR ''}'') 0
              in if endIndex < 0 then (False, result)
                 else (True, substring jsonString (to_unsigned startIndex)
                               (to_unsigned (endIndex + 1))))"

definition getPassword :: "string \<Rightarrow> string \<Rightarrow> bool \<times> string" where
  "getPassword jsonString result =
     (let startIndex = getStartIndex jsonString jsonPassword 0
      in if startIndex < 0 then (False, result)
         else let endIndex = getEndIndex jsonString startIndex
              in if endIndex < 0 then (False, result)
                 else (True, substring jsonString (to_unsigned startIndex)
                               (to_unsigned endIndex)))"

definition getOwnSessionKey :: "collaborators \<Rightarrow> string \<Rightarrow> 64 word \<Rightarrow> bool \<times> 64 word" where
  "getOwnSessionKey E jsonString result =
     (let startIndex = getStartIndex jsonString jsonOwnSessionKey 0
      in if startIndex < 0 then (False, result)
         else let endIndex = getEndIndex jsonString startIndex
              in if endIndex < 0 then (False, result)
                 else (True, stringToUint64 E (substring jsonString (to_unsigned startIndex)
                                                 (to_unsigned endIndex))))"

definition getPeerSessionKey :: "collaborators \<Rightarrow> string \<Rightarrow> 64 word \<Rightarrow> bool \<times> 64 word" where
  "getPeerSessionKey E jsonString result =
     (let startIndex = getStartIndex jsonString jsonPeerSessionKey 0
      in if startIndex < 0 then (False, result)
         else let endIndex = getEndIndex jsonString startIndex
              in if endIndex < 0 then (False, result)
                 else (True, stringToUint64 E (substring jsonString (to_unsigned startIndex)
                                                 (to_unsigned endIndex))))"

definition getPeerStaMac ::
  "collaborators \<Rightarrow> string \<Rightarrow> 8 word list \<Rightarrow> bool \<times> 8 word list" where
  "getPeerStaMac E jsonString resultArray =
     (let startIndex = getStartIndex jsonString jsonPeerStaMac 0
      in if startIndex < 0 then (False, resultArray)
         else let endIndex = getEndIndex jsonString startIndex
              in if endIndex < 0 \<or> endIndex - startIndex \<noteq> 12 then (False, resultArray)
                 else (True, stringToMac E (substring jsonString (to_unsigned startIndex)
                                              (to_unsigned endIndex)) resultArray))"

definition getPeerApMac ::
  "collaborators \<Rightarrow> string \<Rightarrow> 8 word list \<Rightarrow> bool \<times> 8 word list" where
  "getPeerApMac E jsonString resultArray =
     (let startIndex = getStartIndex jsonString jsonPeerApMac 0
      in if startIndex < 0 then (False, resultArray)
         else let endIndex = getEndIndex jsonString startIndex
              in if endIndex < 0 \<or> endIndex - startIndex \<noteq> 12 then (False, resultArray)
                 else (True, stringToMac E (substring jsonString (to_unsigned startIndex)
                                              (to_unsigned endIndex)) resultArray))"

definition getDuration :: "string \<Rightarrow> 32 word \<Rightarrow> bool \<times> 32 word" where
  "getDuration jsonString result =
     (let startIndex = getStartIndex jsonString jsonDuration 0
      in if startIndex < 0 then (False, result)
         else (True, strtoul (substringFrom jsonString (to_unsigned startIndex))))"

definition getNonce :: "string \<Rightarrow> string \<Rightarrow> bool \<times> string" where
  "getNonce jsonString result =
     (let startIndex = getStartIndex jsonString jsonNonce 0
      in if startIndex < 0 then (False, result)
         else let endIndex = getEndIndex jsonString startIndex
              in if endIndex < 0 then (False, result)
                 else (True, substring jsonString (to_unsigned startIndex)
                               (to_unsigned endIndex)))"

definition getHmac :: "string \<Rightarrow> string \<Rightarrow> bool \<times> string" where
  "getHmac jsonString result =
     (let startIndex = getStartIndex jsonString jsonHmac 0
      in if startIndex < 0 then (False, result)
         else let endIndex = getEndIndex jsonString startIndex
              in if endIndex < 0 then (False, result)
                 else (True, substring jsonString (to_unsigned startIndex)
                               (to_unsigned endIndex)))"

definition getDesync :: "string \<Rightarrow> bool \<Rightarrow> bool \<times> bool" where
  "getDesync jsonString result =
     (let startIndex = getStartIndex jsonString jsonDesync 0
      in if startIndex < 0 then (False, result)
         else (True, strtoul (substringFrom jsonString (to_unsigned startIndex)) \<noteq> 0))"

definition getUnsynchronizedMessageID :: "string \<Rightarrow> 32 word \<Rightarrow> bool \<times> 32 word" where
  "getUnsynchronizedMessageID jsonString result =
     (let startIndex = getStartIndex jsonString jsonUnsynchronizedMessageID 0
      in if startIndex < 0 then (False, result)
         else (True, strtoul (substringFrom jsonString (to_unsigned startIndex))))"

text \<open>
  \<open>assert\<close> ends the program when its condition is false; that outcome is the value
  \<open>Inl AssertionFailed\<close>. The assignment of the \<open>uint32_t\<close> to the \<open>uint16_t\<close> result keeps
  the low 16 bits.
\<close>

datatype fatal = AssertionFailed

definition getMeshMessageCount :: "string \<Rightarrow> 16 word \<Rightarrow> fatal + bool \<times> 16 word" where
  "getMeshMessageCount jsonString result =
     (let startIndex = getStartIndex jsonString jsonMeshMessageCount 0
      in if startIndex < 0 then Inr (False, result)
         else let longResult = strtoul (substringFrom jsonString (to_unsigned startIndex))
              in if \<not> longResult \<le> 65535 then Inl AssertionFailed
                 else Inr (True, ucast longResult))"

section \<open>HMAC verifier\<close>

definition verifyEncryptionRequestHmac ::
  "collaborators \<Rightarrow> string \<Rightarrow> 8 word list \<Rightarrow> 8 word list \<Rightarrow> 8 word list \<Rightarrow> 8 word \<Rightarrow> bool" where
  "verifyEncryptionRequestHmac E encryptionRequestHmacMessage requesterStaMac requesterApMac
       hashKey hashKeyLength =
     (case getHmac encryptionRequestHmacMessage [] of
        (True, hmac) \<Rightarrow>
          (let hmacStartIndex = indexOf encryptionRequestHmacMessage jsonHmac 0
           in if hmacStartIndex < 0 then False
              else if length hmac = 2 * SHA256_NATURAL_LENGTH
                      \<and> verifyMeshHmac E
                          (macToString E requesterStaMac @ macToString E requesterApMac
                           @ substring encryptionRequestHmacMessage 0 (to_unsigned hmacStartIndex))
                          hmac hashKey hashKeyLength
                   then True
                   else False)
      | (False, hmac) \<Rightarrow> False)"

section \<open>Notions of the specification\<close>

text \<open>
  The spec's reading of "the first \<open>ch\<close> at or after position \<open>n\<close> sits at index \<open>i\<close>".
\<close>

definition firstAtOrAfter :: "string \<Rightarrow> char \<Rightarrow> nat \<Rightarrow> nat \<Rightarrow> bool" where
  "firstAtOrAfter s ch n i \<longleftrightarrow>
     n \<le> i \<and> i < length s \<and> s ! i = ch \<and> (\<forall>k. n \<le> k \<and> k < i \<longrightarrow> s ! k \<noteq> ch)"

text \<open>
  The spec's reading of "the first occurrence of \<open>p\<close> in \<open>s\<close> starts at index \<open>k\<close>";
  \<open>sublist p s\<close> is "\<open>p\<close> occurs in \<open>s\<close>".
\<close>

definition firstOccurrence :: "string \<Rightarrow> string \<Rightarrow> nat \<Rightarrow> bool" where
  "firstOccurrence s p k \<longleftrightarrow> prefix p (drop k s) \<and> (\<forall>j<k. \<not> prefix p (drop j s))"

text \<open>
  Value texts on which the two readings of a number agree: the text starts with a digit
  from 1 to 9 and its leading digits stay below \<open>2 ^ 32\<close>, or it starts with a single
  \<open>0\<close> that is followed by neither a digit nor \<open>x\<close> or \<open>X\<close>.
\<close>

definition plainDecimal :: "string \<Rightarrow> bool" where
  "plainDecimal s \<longleftrightarrow>
     (case s of
        [] \<Rightarrow> False
      | c # t \<Rightarrow>
          if c = CHR ''0''
          then (case t of
                  [] \<Rightarrow> True
                | c' # u \<Rightarrow> \<not> isDecimalDigit c' \<and> c' \<noteq> CHR ''x'' \<and> c' \<noteq> CHR ''X'')
          else isDecimalDigit c \<and> leadingDigitsValue s < 2 ^ 32)"

text \<open>
  The spec's field grammar, for the getters that bound a value by its delimiter:
  \<open>fieldSpan msg ident vs e\<close> says that the value of the first field named \<open>ident\<close>
  starts at index \<open>vs\<close> (after the identifier and the opening quotation mark) and that
  its end delimiter, the next comma or else the next closing brace, sits at index \<open>e\<close>;
  \<open>fieldTruncated msg ident\<close> says that the identifier occurs but neither delimiter
  follows the value start.
\<close>

definition fieldSpan :: "string \<Rightarrow> string \<Rightarrow> nat \<Rightarrow> nat \<Rightarrow> bool" where
  "fieldSpan msg ident vs e \<longleftrightarrow>
     (\<exists>k. firstOccurrence msg ident k \<and> vs = k + length ident + 1)
     \<and> (firstAtOrAfter msg (CHR '','') vs e
        \<or> (CHR '','' \<notin> set (drop vs msg) \<and> firstAtOrAfter msg (CHR ''}'') vs e))"

definition fieldTruncated :: "string \<Rightarrow> string \<Rightarrow> bool" where
  "fieldTruncated msg ident \<longleftrightarrow>
     (\<exists>k. firstOccurrence msg ident k
        \<and> CHR '','' \<notin> set (drop (k + length ident + 1) msg)
        \<and> CHR ''}'' \<notin> set (drop (k + length ident + 1) msg))"

text \<open>
  \<open>noOccurrenceIn p s rest\<close> says that in the text \<open>s @ rest\<close> no occurrence of \<open>p\<close> starts
  inside \<open>s\<close>.
\<close>

definition noOccurrenceIn :: "string \<Rightarrow> string \<Rightarrow> string \<Rightarrow> bool" where
  "noOccurrenceIn p s rest \<longleftrightarrow> (\<forall>j<length s. \<not> prefix p (drop j (s @ rest)))"

section \<open>An instance of the collaborators\<close>

text \<open>
  Modelled from the spec: one instance of the collaborators, for evaluating the model on
  concrete messages. The header constant is the spec's example \<open>temporary\<close>; a session key
  is rendered in decimal and read back by its leading decimal digits; an address is
  rendered as 12 hexadecimal characters. In place of HMAC-SHA256 stands \<open>sampleHmac\<close>, a tag
  of 64 hexadecimal characters computed from the lengths of the message and the key, which
  the verifier recomputes and compares.
\<close>

definition sampleHmac :: "string \<Rightarrow> 8 word list \<Rightarrow> string" where
  "sampleHmac m key =
     map (\<lambda>c. ''0123456789ABCDEF'' ! ((of_char c + length m + length key) mod 16))
       ''0123456789ABCDEF0123456789ABCDEF0123456789ABCDEF0123456789ABCDEF''"

definition hexByte :: "8 word \<Rightarrow> string" where
  "hexByte b = [''0123456789ABCDEF'' ! (unat b div 16), ''0123456789ABCDEF'' ! (unat b mod 16)]"

definition hexValue :: "string \<Rightarrow> nat" where
  "hexValue s = foldl (\<lambda>a c. a * 16 + (case digitValue c of None \<Rightarrow> 0 | Some d \<Rightarrow> d)) 0 s"

definition sampleCollaborators :: collaborators where
  "sampleCollaborators =
     \<lparr> temporaryEncryptionRequestHeader = ''temporary'',
       uint64ToString = (\<lambda>k. decimalString (unat k)),
       stringToUint64 = (\<lambda>s. word_of_nat (leadingDigitsValue s)),
       macToString = (\<lambda>mac. concat (map hexByte mac)),
       stringToMac = (\<lambda>s resultArray.
          map (\<lambda>i. word_of_nat (hexValue (take 2 (drop (2 * i) s)))) [0..<6]),
       createMeshHmac = (\<lambda>m key keyLength. sampleHmac m key),
       verifyMeshHmac = (\<lambda>m tag key keyLength. tag = sampleHmac m key),
       macAddress = [0x5C, 0xCF, 0x7F, 1, 2, 3],
       softAPmacAddress = [0x5E, 0xCF, 0x7F, 1, 2, 3] \<rparr>"

section \<open>Facts about the String operations\<close>

lemma strchr_None_iff: "strchr s ch = None \<longleftrightarrow> ch \<notin> set s"
  by (induction s) auto

lemma strchr_Some_iff:
  "strchr s ch = Some k \<longleftrightarrow> k < length s \<and> s ! k = ch \<and> ch \<notin> set (take k s)"
proof (induction s arbitrary: k)
  case Nil
  then show ?case by simp
next
  case (Cons c cs)
  show ?case
  proof (cases k)
    case 0
    then show ?thesis by auto
  next
    case (Suc j)
    then show ?thesis using Cons.IH [of j] by auto
  qed
qed

lemma strchr_append_notin: "ch \<notin> set xs \<Longrightarrow> strchr (xs @ ch # ys) ch = Some (length xs)"
  by (induction xs) auto

lemma to_unsigned_nonneg: "0 \<le> i \<Longrightarrow> to_unsigned i = nat i"
  by (simp add: to_unsigned_def)

lemma to_unsigned_int: "to_unsigned (int n) = n"
  by (simp add: to_unsigned_def)

lemma firstAtOrAfter_iff_strchr:
  "firstAtOrAfter s ch n i \<longleftrightarrow> n \<le> i \<and> n < length s \<and> strchr (drop n s) ch = Some (i - n)"
proof
  assume h: "firstAtOrAfter s ch n i"
  then have ni: "n \<le> i" and il: "i < length s" and si: "s ! i = ch"
    and before: "\<forall>k. n \<le> k \<and> k < i \<longrightarrow> s ! k \<noteq> ch"
    by (simp_all add: firstAtOrAfter_def)
  have "ch \<notin> set (take (i - n) (drop n s))"
  proof
    assume "ch \<in> set (take (i - n) (drop n s))"
    then obtain j where j: "j < length (take (i - n) (drop n s))"
      and cj: "take (i - n) (drop n s) ! j = ch"
      by (auto simp: in_set_conv_nth)
    from j have jlt: "j < i - n" by simp
    with il have "s ! (n + j) = ch" using cj by simp
    moreover have "n \<le> n + j \<and> n + j < i" using jlt by arith
    ultimately show False using before by blast
  qed
  moreover have "drop n s ! (i - n) = ch" using ni il si by simp
  moreover have "i - n < length (drop n s)" using ni il by simp
  ultimately have "strchr (drop n s) ch = Some (i - n)"
    by (simp add: strchr_Some_iff)
  with ni il show "n \<le> i \<and> n < length s \<and> strchr (drop n s) ch = Some (i - n)" by simp
next
  assume h: "n \<le> i \<and> n < length s \<and> strchr (drop n s) ch = Some (i - n)"
  then have ni: "n \<le> i" and st: "strchr (drop n s) ch = Some (i - n)" by simp_all
  from st have a: "i - n < length (drop n s)" and b: "drop n s ! (i - n) = ch"
    and c: "ch \<notin> set (take (i - n) (drop n s))"
    by (simp_all add: strchr_Some_iff)
  from a ni have il: "i < length s" by simp
  from b ni il have si: "s ! i = ch" by simp
  have "s ! k \<noteq> ch" if k: "n \<le> k \<and> k < i" for k
  proof
    assume e: "s ! k = ch"
    have len: "k - n < length (take (i - n) (drop n s))" using k il by auto
    have "k - n < i - n" using k by arith
    then have "take (i - n) (drop n s) ! (k - n) = drop n s ! (k - n)" by simp
    also have "\<dots> = s ! k" using k il by simp
    finally have "take (i - n) (drop n s) ! (k - n) = ch" using e by simp
    with len show False using c by (metis nth_mem)
  qed
  with ni il si show "firstAtOrAfter s ch n i" by (simp add: firstAtOrAfter_def)
qed

lemma indexOfChar_first: "firstAtOrAfter s ch n i \<Longrightarrow> indexOfChar s ch n = int i"
  by (auto simp: firstAtOrAfter_iff_strchr indexOfChar_def)

lemma indexOfChar_none: "ch \<notin> set (drop n s) \<Longrightarrow> indexOfChar s ch n = - 1"
  by (simp add: indexOfChar_def strchr_None_iff [symmetric])

lemma indexOfChar_cases:
  "(ch \<notin> set (drop n s) \<and> indexOfChar s ch n = - 1)
   \<or> (\<exists>i. firstAtOrAfter s ch n i \<and> indexOfChar s ch n = int i)"
proof (cases "length s \<le> n")
  case True
  then show ?thesis by (simp add: indexOfChar_def)
next
  case False
  show ?thesis
  proof (cases "strchr (drop n s) ch")
    case None
    then have "ch \<notin> set (drop n s)" by (simp add: strchr_None_iff)
    moreover have "indexOfChar s ch n = - 1" using None by (simp add: indexOfChar_def)
    ultimately show ?thesis by simp
  next
    case (Some k)
    then have "firstAtOrAfter s ch n (n + k)"
      using False by (simp add: firstAtOrAfter_iff_strchr)
    moreover have "indexOfChar s ch n = int (n + k)"
      using False Some by (simp add: indexOfChar_def)
    ultimately show ?thesis by blast
  qed
qed

lemma firstAtOrAfter_in_set:
  assumes "firstAtOrAfter s ch n i"
  shows "ch \<in> set (drop n s)"
proof -
  from assms have "strchr (drop n s) ch \<noteq> None"
    by (simp add: firstAtOrAfter_iff_strchr)
  then show ?thesis by (simp add: strchr_None_iff)
qed

lemma firstAtOrAfter_unique:
  "firstAtOrAfter s ch n i \<Longrightarrow> firstAtOrAfter s ch n j \<Longrightarrow> i = j"
  by (auto simp: firstAtOrAfter_iff_strchr)

section \<open>The end locator\<close>

lemma getEndIndex_nonneg_start:
  "0 \<le> start \<Longrightarrow> getEndIndex msg start =
     (let e = indexOfChar msg (CHR '','') (nat start)
      in (if e < 0 then indexOfChar msg (CHR ''}'') (nat start) else e) - 1)"
  by (simp add: getEndIndex_def to_unsigned_nonneg Let_def)

lemma getEndIndex_comma:
  assumes "0 \<le> start" "firstAtOrAfter msg (CHR '','') (nat start) i"
  shows "getEndIndex msg start = int i - 1"
  using assms by (simp add: getEndIndex_nonneg_start indexOfChar_first)

lemma getEndIndex_brace:
  assumes "0 \<le> start" "CHR '','' \<notin> set (drop (nat start) msg)"
    "firstAtOrAfter msg (CHR ''}'') (nat start) j"
  shows "getEndIndex msg start = int j - 1"
  using assms by (simp add: getEndIndex_nonneg_start indexOfChar_first indexOfChar_none)

lemma getEndIndex_neither:
  assumes "0 \<le> start" "CHR '','' \<notin> set (drop (nat start) msg)"
    "CHR ''}'' \<notin> set (drop (nat start) msg)"
  shows "getEndIndex msg start = - 2"
  using assms by (simp add: getEndIndex_nonneg_start indexOfChar_none)

lemma getEndIndex_negative_iff:
  assumes "0 \<le> start"
  shows "getEndIndex msg start < 0 \<longleftrightarrow>
           (CHR '','' \<notin> set (drop (nat start) msg) \<and> CHR ''}'' \<notin> set (drop (nat start) msg))
           \<or> firstAtOrAfter msg (CHR '','') (nat start) 0
           \<or> (CHR '','' \<notin> set (drop (nat start) msg) \<and> firstAtOrAfter msg (CHR ''}'') (nat start) 0)"
proof -
  let ?n = "nat start"
  from indexOfChar_cases [of "CHR '',''" ?n msg]
  consider (nocomma) "CHR '','' \<notin> set (drop ?n msg)"
    | (comma) i where "firstAtOrAfter msg (CHR '','') ?n i"
    by blast
  then show ?thesis
  proof cases
    case comma
    then have e: "getEndIndex msg start = int i - 1"
      using assms by (simp add: getEndIndex_comma)
    have "CHR '','' \<in> set (drop ?n msg)" using comma by (rule firstAtOrAfter_in_set)
    moreover have "firstAtOrAfter msg (CHR '','') ?n 0 \<longleftrightarrow> i = 0"
      using comma firstAtOrAfter_unique by blast
    ultimately show ?thesis using e by auto
  next
    case nocomma
    from indexOfChar_cases [of "CHR ''}''" ?n msg]
    consider (nobrace) "CHR ''}'' \<notin> set (drop ?n msg)"
      | (brace) j where "firstAtOrAfter msg (CHR ''}'') ?n j"
      by blast
    then show ?thesis
    proof cases
      case nobrace
      then show ?thesis using nocomma assms by (simp add: getEndIndex_neither)
    next
      case brace
      then have e: "getEndIndex msg start = int j - 1"
        using assms nocomma by (simp add: getEndIndex_brace)
      have "CHR ''}'' \<in> set (drop ?n msg)" using brace by (rule firstAtOrAfter_in_set)
      moreover have "firstAtOrAfter msg (CHR ''}'') ?n 0 \<longleftrightarrow> j = 0"
        using brace firstAtOrAfter_unique by blast
      moreover have "\<not> firstAtOrAfter msg (CHR '','') ?n 0"
        using nocomma firstAtOrAfter_in_set by blast
      ultimately show ?thesis using e nocomma by auto
    qed
  qed
qed

text \<open>
  Claim C5, as the code has it. For a search start that is not negative, \<open>getEndIndex\<close>
  returns one less than the index of the first comma at or after the search start; when
  there is no comma there, one less than the index of the first closing brace at or after
  the search start; and \<open>-2\<close> when there is neither. The result is negative exactly when
  neither delimiter occurs at or after the search start, or when the delimiter that is
  found is the first character of the message (index 0, so the result is \<open>-1\<close>).
\<close>

theorem getEndIndex_delimiter:
  "0 \<le> start \<longrightarrow>
     (\<forall>i. firstAtOrAfter msg (CHR '','') (nat start) i \<longrightarrow> getEndIndex msg start = int i - 1)
   \<and> (\<forall>j. CHR '','' \<notin> set (drop (nat start) msg) \<and> firstAtOrAfter msg (CHR ''}'') (nat start) j
          \<longrightarrow> getEndIndex msg start = int j - 1)
   \<and> (CHR '','' \<notin> set (drop (nat start) msg) \<and> CHR ''}'' \<notin> set (drop (nat start) msg)
          \<longrightarrow> getEndIndex msg start = - 2)
   \<and> (getEndIndex msg start < 0 \<longleftrightarrow>
           (CHR '','' \<notin> set (drop (nat start) msg) \<and> CHR ''}'' \<notin> set (drop (nat start) msg))
           \<or> firstAtOrAfter msg (CHR '','') (nat start) 0
           \<or> (CHR '','' \<notin> set (drop (nat start) msg) \<and> firstAtOrAfter msg (CHR ''}'') (nat start) 0))"
  using getEndIndex_comma [of start msg] getEndIndex_brace [of start msg]
    getEndIndex_neither [of start msg] getEndIndex_negative_iff [of start msg]
  by blast

theorem getEndIndex_delimiter_witness:
  "(0::int) \<le> 1
   \<and> firstAtOrAfter ''ab,c}'' (CHR '','') (nat 1) 2
   \<and> getEndIndex ''ab,c}'' 1 = 1
   \<and> \<not> getEndIndex ''ab,c}'' 1 < 0"
proof -
  have f: "firstAtOrAfter ''ab,c}'' (CHR '','') (nat 1) 2"
    by (simp add: firstAtOrAfter_iff_strchr)
  have "getEndIndex ''ab,c}'' 1 = int 2 - 1"
    using getEndIndex_delimiter [of 1 "''ab,c}''"] f by simp
  then show ?thesis using f by simp
qed

text \<open>
  The claim as it is worded fails on the message \<open>,\<close> with search start 0: the result is
  negative although a comma occurs at the search start.
\<close>

theorem getEndIndex_negative_counterexample:
  "\<not> (getEndIndex '','' 0 < 0 \<longleftrightarrow>
        CHR '','' \<notin> set (drop (nat 0) '','') \<and> CHR ''}'' \<notin> set (drop (nat 0) '',''))"
  by (simp add: getEndIndex_def indexOfChar_def to_unsigned_def)

section \<open>Occurrences of an identifier\<close>



lemma strstr_Some_iff:
  "strstr s p = Some k \<longleftrightarrow> k \<le> length s \<and> firstOccurrence s p k"
proof (induction s arbitrary: k)
  case Nil
  then show ?case by (auto simp: firstOccurrence_def)
next
  case (Cons c cs)
  show ?case
  proof (cases "prefix p (c # cs)")
    case True
    then show ?thesis by (cases k) (auto simp: firstOccurrence_def)
  next
    case False
    show ?thesis
    proof (cases k)
      case 0
      then show ?thesis using False by (simp add: firstOccurrence_def)
    next
      case (Suc k')
      then show ?thesis using False Cons.IH [of k']
        by (simp add: firstOccurrence_def All_less_Suc2)
    qed
  qed
qed

lemma strstr_None_iff: "strstr s p = None \<longleftrightarrow> \<not> sublist p s"
  by (induction s) (auto simp: sublist_Cons_right)

lemma firstOccurrence_unique:
  "firstOccurrence s p k \<Longrightarrow> firstOccurrence s p j \<Longrightarrow> k = j"
  unfolding firstOccurrence_def by (meson nat_neq_iff)

lemma firstOccurrence_le_length:
  "p \<noteq> [] \<Longrightarrow> firstOccurrence s p k \<Longrightarrow> k + length p \<le> length s"
  unfolding firstOccurrence_def
  by (metis add.commute drop_all length_drop less_diff_conv2 linorder_not_less nat_le_linear prefix_Nil prefix_length_le le_diff_conv2)

lemma sublist_firstOccurrence:
  assumes "sublist p s"
  shows "\<exists>k. firstOccurrence s p k \<and> k \<le> length s"
proof -
  from assms have "strstr s p \<noteq> None" by (simp add: strstr_None_iff)
  then obtain k where "strstr s p = Some k" by blast
  then show ?thesis by (auto simp: strstr_Some_iff)
qed

lemma firstOccurrence_sublist: "firstOccurrence s p k \<Longrightarrow> sublist p s"
  unfolding firstOccurrence_def
  by (metis append_take_drop_id prefix_def sublist_appendI sublist_def)

lemma indexOf_absent: "\<not> sublist p s \<Longrightarrow> indexOf s p 0 = - 1"
  by (simp add: indexOf_def strstr_None_iff [symmetric])

lemma indexOf_first:
  assumes "p \<noteq> []" "firstOccurrence s p k"
  shows "indexOf s p 0 = int k"
proof -
  from assms have "k + length p \<le> length s" by (rule firstOccurrence_le_length)
  with assms(1) have "k \<le> length s" "s \<noteq> []" by auto
  with assms(2) have "strstr s p = Some k" by (simp add: strstr_Some_iff)
  with \<open>s \<noteq> []\<close> show ?thesis by (simp add: indexOf_def)
qed

lemma getStartIndex_absent: "\<not> sublist p s \<Longrightarrow> getStartIndex s p 0 = - 1"
  by (simp add: getStartIndex_def to_unsigned_def indexOf_absent)

lemma getStartIndex_first:
  "p \<noteq> [] \<Longrightarrow> firstOccurrence s p k \<Longrightarrow> getStartIndex s p 0 = int (k + length p + 1)"
  by (simp add: getStartIndex_def to_unsigned_def indexOf_first)


section \<open>Substrings and decimal text\<close>

lemma substring_le:
  "l \<le> r \<Longrightarrow> r \<le> length s \<Longrightarrow> substring s l r = take (r - l) (drop l s)"
  by (simp add: substring_def)

lemma substringFrom_drop: "substringFrom s n = drop n s"
  by (simp add: substringFrom_def substring_def)

lemma decimalString_digits: "\<forall>c \<in> set (decimalString n). isDecimalDigit c"
proof (induction n rule: decimalString.induct)
  case (1 n)
  have d: "isDecimalDigit (''0123456789'' ! k)" if "k < 10" for k
  proof -
    from that have "k \<in> {0,1,2,3,4,5,6,7,8,9}" by auto
    then show ?thesis by (auto simp: isDecimalDigit_def)
  qed
  show ?case
  proof (cases "n < 10")
    case True
    then show ?thesis by (subst decimalString.simps) (simp add: d)
  next
    case False
    then show ?thesis using 1 by (subst decimalString.simps) (simp add: d)
  qed
qed

lemma digit_char_value: "k < 10 \<Longrightarrow> of_char (''0123456789'' ! k) - 48 = k"
proof -
  assume "k < 10"
  then have "k \<in> {0,1,2,3,4,5,6,7,8,9}" by auto
  then show ?thesis by auto
qed

lemma leadingDigitsValue_all_digits:
  "\<forall>c \<in> set s. isDecimalDigit c \<Longrightarrow> leadingDigitsValue (s @ [c]) =
     (if isDecimalDigit c then leadingDigitsValue s * 10 + (of_char c - 48) else leadingDigitsValue s)"
  by (simp add: leadingDigitsValue_def takeWhile_append2 takeWhile_eq_all_conv[THEN iffD2])

lemma decimalString_value: "leadingDigitsValue (decimalString n) = n"
proof (induction n rule: decimalString.induct)
  case (1 n)
  have d: "isDecimalDigit (''0123456789'' ! k)" if "k < 10" for k
    using decimalString_digits [of k] that by (subst (asm) decimalString.simps) simp
  show ?case
  proof (cases "n < 10")
    case True
    then show ?thesis
      by (subst decimalString.simps) (simp add: leadingDigitsValue_def d digit_char_value)
  next
    case False
    have "leadingDigitsValue (decimalString (n div 10) @ [''0123456789'' ! (n mod 10)])
          = leadingDigitsValue (decimalString (n div 10)) * 10 + n mod 10"
      using decimalString_digits [of "n div 10"]
      by (simp add: leadingDigitsValue_all_digits d digit_char_value)
    then show ?thesis using False 1 by (subst decimalString.simps) (simp)
  qed
qed

section \<open>The encryption request intro\<close>

text \<open>
  Claim C4. When the header equals the temporary encryption request header constant,
  \<open>createEncryptionRequestIntro\<close> returns the header, \<open>{"arguments":{\<close> and the duration
  pair \<open>"duration":"<duration>",\<close>; for any other header it returns exactly the header and
  \<open>{"arguments":{\<close>. The rendering of the duration consists of decimal digits whose value
  is the duration.
\<close>

theorem createEncryptionRequestIntro_duration:
  \<open>(requestHeader = temporaryEncryptionRequestHeader E \<longrightarrow>
      createEncryptionRequestIntro E requestHeader duration
        = requestHeader @ ''{"arguments":{'' @ jsonDuration @ ''"'' @ String_uint32 duration @ ''",'')
   \<and> (requestHeader \<noteq> temporaryEncryptionRequestHeader E \<longrightarrow>
      createEncryptionRequestIntro E requestHeader duration = requestHeader @ ''{"arguments":{'')
   \<and> (\<forall>c \<in> set (String_uint32 duration). isDecimalDigit c)
   \<and> leadingDigitsValue (String_uint32 duration) = unat duration\<close>
  by (simp add: createEncryptionRequestIntro_def createJsonPair_def String_uint32_def
      decimalString_digits decimalString_value)

theorem createEncryptionRequestIntro_duration_witness:
  \<open>''temporary'' = temporaryEncryptionRequestHeader sampleCollaborators
   \<and> createEncryptionRequestIntro sampleCollaborators ''temporary'' 5000
        = ''temporary{"arguments":{"duration":"5000",''
   \<and> ''other'' \<noteq> temporaryEncryptionRequestHeader sampleCollaborators
   \<and> createEncryptionRequestIntro sampleCollaborators ''other'' 5000 = ''other{"arguments":{''\<close>
proof -
  have t: "''temporary'' = temporaryEncryptionRequestHeader sampleCollaborators"
    by (simp add: sampleCollaborators_def)
  have o: "''other'' \<noteq> temporaryEncryptionRequestHeader sampleCollaborators"
    by (simp add: sampleCollaborators_def)
  have s: "String_uint32 5000 = ''5000''"
    by (simp add: String_uint32_def decimalString.simps)
  show ?thesis
    using createEncryptionRequestIntro_duration [of "''temporary''" sampleCollaborators 5000]
      createEncryptionRequestIntro_duration [of "''other''" sampleCollaborators 5000] t o s
    by (simp add: jsonDuration_def)
qed

section \<open>The start locator\<close>


lemma indexOfChar_lt_length: "indexOfChar s ch n < int (length s)"
  by (auto simp: indexOfChar_def strchr_Some_iff split: option.split)

lemma getEndIndex_bound: "0 \<le> start \<Longrightarrow> getEndIndex msg start + 1 < int (length msg)"
  using indexOfChar_lt_length [of msg "CHR '',''" "nat start"]
    indexOfChar_lt_length [of msg "CHR ''}''" "nat start"]
  by (simp add: getEndIndex_nonneg_start Let_def)

lemma getStartIndex_cases:
  "getStartIndex msg p 0 = - 1 \<or> int (length p) + 1 \<le> getStartIndex msg p 0"
  by (auto simp: getStartIndex_def indexOf_def to_unsigned_def Let_def split: option.split)

lemma getStartIndex_negative_iff:
  "p \<noteq> [] \<Longrightarrow> getStartIndex msg p 0 < 0 \<longleftrightarrow> \<not> sublist p msg"
proof
  assume "p \<noteq> []" "getStartIndex msg p 0 < 0"
  show "\<not> sublist p msg"
  proof
    assume "sublist p msg"
    then obtain k where "firstOccurrence msg p k" using sublist_firstOccurrence by blast
    with \<open>p \<noteq> []\<close> have "getStartIndex msg p 0 = int (k + length p + 1)"
      by (rule getStartIndex_first)
    with \<open>getStartIndex msg p 0 < 0\<close> show False by simp
  qed
next
  assume "\<not> sublist p msg"
  then show "getStartIndex msg p 0 < 0" by (simp add: getStartIndex_absent)
qed

lemma firstOccurrence_at_1: "prefix p (drop 1 s) \<Longrightarrow> \<not> prefix p s \<Longrightarrow> firstOccurrence s p 1"
  by (simp add: firstOccurrence_def)

lemma firstOccurrence_at_0: "prefix p s \<Longrightarrow> firstOccurrence s p 0"
  by (simp add: firstOccurrence_def)

section \<open>The mesh message count\<close>

lemma getMeshMessageCount_present:
  assumes "firstOccurrence msg jsonMeshMessageCount k"
  shows "getMeshMessageCount msg r =
     (let v = strtoul (drop (k + length jsonMeshMessageCount + 1) msg)
      in if v \<le> 65535 then Inr (True, ucast v) else Inl AssertionFailed)"
proof -
  have "jsonMeshMessageCount \<noteq> []" by (simp add: jsonMeshMessageCount_def)
  then have "getStartIndex msg jsonMeshMessageCount 0 = int (k + length jsonMeshMessageCount + 1)"
    using assms by (rule getStartIndex_first)
  moreover have "to_unsigned (int (k + length jsonMeshMessageCount + 1))
                 = k + length jsonMeshMessageCount + 1"
    by (rule to_unsigned_int)
  ultimately show ?thesis
    by (simp only: getMeshMessageCount_def substringFrom_drop Let_def) simp
qed

text \<open>
  Claim C6. When the meshMessageCount identifier occurs in the message, the value that
  \<open>strtoul\<close> reads at the value start (after the first occurrence of the identifier and
  one more character) decides the outcome: a value of at most 65535 makes
  \<open>getMeshMessageCount\<close> return true with exactly that value in the 16-bit output; a
  larger value ends in the failed assertion, neither a false return nor a truncated value.
\<close>

theorem getMeshMessageCount_fits_or_aborts:
  "sublist jsonMeshMessageCount msg \<longrightarrow>
     (\<exists>k. firstOccurrence msg jsonMeshMessageCount k \<and>
        (let v = strtoul (drop (k + length jsonMeshMessageCount + 1) msg)
         in (unat v \<le> 65535 \<longrightarrow>
               getMeshMessageCount msg r = Inr (True, ucast v)
               \<and> unat (ucast v :: 16 word) = unat v)
          \<and> (65535 < unat v \<longrightarrow> getMeshMessageCount msg r = Inl AssertionFailed)))"
proof
  assume "sublist jsonMeshMessageCount msg"
  then obtain k where k: "firstOccurrence msg jsonMeshMessageCount k"
    using sublist_firstOccurrence by blast
  let ?v = "strtoul (drop (k + length jsonMeshMessageCount + 1) msg)"
  have le: "?v \<le> 65535 \<longleftrightarrow> unat ?v \<le> 65535" by (simp add: word_le_nat_alt)
  have uc: "unat (ucast ?v :: 16 word) = unat ?v" if "unat ?v \<le> 65535"
    using that by (simp add: unsigned_ucast_eq take_bit_nat_eq_self)
  have a: "unat ?v \<le> 65535 \<longrightarrow> getMeshMessageCount msg r = Inr (True, ucast ?v)
             \<and> unat (ucast ?v :: 16 word) = unat ?v"
    using getMeshMessageCount_present [OF k, of r] le uc by (simp add: Let_def)
  have b: "65535 < unat ?v \<longrightarrow> getMeshMessageCount msg r = Inl AssertionFailed"
    using getMeshMessageCount_present [OF k, of r] le by (simp add: Let_def)
  from k a b show "\<exists>k. firstOccurrence msg jsonMeshMessageCount k \<and>
        (let v = strtoul (drop (k + length jsonMeshMessageCount + 1) msg)
         in (unat v \<le> 65535 \<longrightarrow>
               getMeshMessageCount msg r = Inr (True, ucast v)
               \<and> unat (ucast v :: 16 word) = unat v)
          \<and> (65535 < unat v \<longrightarrow> getMeshMessageCount msg r = Inl AssertionFailed))"
    unfolding Let_def by blast
qed

theorem getMeshMessageCount_fits_or_aborts_witness:
  \<open>sublist jsonMeshMessageCount ''{"meshMessageCount":"65535"}}''
   \<and> getMeshMessageCount ''{"meshMessageCount":"65535"}}'' 7 = Inr (True, 65535)
   \<and> sublist jsonMeshMessageCount ''{"meshMessageCount":"65536"}}''
   \<and> getMeshMessageCount ''{"meshMessageCount":"65536"}}'' 7 = Inl AssertionFailed\<close>
proof -
  let ?a = \<open>''{"meshMessageCount":"65535"}}''\<close>
  let ?b = \<open>''{"meshMessageCount":"65536"}}''\<close>
  have fa: "firstOccurrence ?a jsonMeshMessageCount 1"
    by (rule firstOccurrence_at_1) (simp_all add: jsonMeshMessageCount_def)
  have fb: "firstOccurrence ?b jsonMeshMessageCount 1"
    by (rule firstOccurrence_at_1) (simp_all add: jsonMeshMessageCount_def)
  have sa: "sublist jsonMeshMessageCount ?a" using fa by (rule firstOccurrence_sublist)
  have sb: "sublist jsonMeshMessageCount ?b" using fb by (rule firstOccurrence_sublist)
  have va: \<open>strtoul ''65535"}}'' = 65535\<close>
    by (simp add: strtoul_def isspace_def digitValue_def ULONG_MAX_def)
  have vb: \<open>strtoul ''65536"}}'' = 65536\<close>
    by (simp add: strtoul_def isspace_def digitValue_def ULONG_MAX_def)
  from getMeshMessageCount_fits_or_aborts [of ?a 7] sa
  obtain k where k: "firstOccurrence ?a jsonMeshMessageCount k"
    and p: "let v = strtoul (drop (k + length jsonMeshMessageCount + 1) ?a)
         in (unat v \<le> 65535 \<longrightarrow>
               getMeshMessageCount ?a 7 = Inr (True, ucast v)
               \<and> unat (ucast v :: 16 word) = unat v)
          \<and> (65535 < unat v \<longrightarrow> getMeshMessageCount ?a 7 = Inl AssertionFailed)"
    by blast
  from k fa have "k = 1" by (rule firstOccurrence_unique)
  with p va have ra: "getMeshMessageCount ?a 7 = Inr (True, 65535)"
    by (simp add: jsonMeshMessageCount_def)
  from getMeshMessageCount_fits_or_aborts [of ?b 7] sb
  obtain j where j: "firstOccurrence ?b jsonMeshMessageCount j"
    and q: "let v = strtoul (drop (j + length jsonMeshMessageCount + 1) ?b)
         in (unat v \<le> 65535 \<longrightarrow>
               getMeshMessageCount ?b 7 = Inr (True, ucast v)
               \<and> unat (ucast v :: 16 word) = unat v)
          \<and> (65535 < unat v \<longrightarrow> getMeshMessageCount ?b 7 = Inl AssertionFailed)"
    by blast
  from j fb have "j = 1" by (rule firstOccurrence_unique)
  with q vb have rb: "getMeshMessageCount ?b 7 = Inl AssertionFailed"
    by (simp add: jsonMeshMessageCount_def)
  from sa sb ra rb show ?thesis by simp
qed

section \<open>The hardware address getters\<close>


lemma substring_nonneg:
  assumes "0 \<le> s" "s \<le> e" "e \<le> int (length msg)"
  shows "substring msg (to_unsigned s) (to_unsigned e) = take (nat (e - s)) (drop (nat s) msg)"
proof -
  have "to_unsigned s = nat s" "to_unsigned e = nat e"
    using assms by (simp_all add: to_unsigned_nonneg)
  moreover have "nat s \<le> nat e" "nat e \<le> length msg" using assms by simp_all
  moreover have "nat e - nat s = nat (e - s)" using assms by simp
  ultimately show ?thesis by (simp add: substring_le)
qed

lemma getPeerStaMac_unfold:
  "getPeerStaMac E msg arr =
     (let s = getStartIndex msg jsonPeerStaMac 0; e = getEndIndex msg s
      in if 0 \<le> s \<and> e - s = 12
         then (True, stringToMac E (take 12 (drop (nat s) msg)) arr)
         else (False, arr))"
proof -
  let ?s = "getStartIndex msg jsonPeerStaMac 0"
  let ?e = "getEndIndex msg ?s"
  show ?thesis
  proof (cases "0 \<le> ?s \<and> ?e - ?s = 12")
    case True
    then have "?e + 1 < int (length msg)" by (simp add: getEndIndex_bound)
    with True have "substring msg (to_unsigned ?s) (to_unsigned ?e)
                     = take (nat (?e - ?s)) (drop (nat ?s) msg)"
      by (intro substring_nonneg) simp_all
    with True show ?thesis by (simp add: getPeerStaMac_def Let_def)
  next
    case False
    then show ?thesis by (auto simp: getPeerStaMac_def Let_def)
  qed
qed

lemma getPeerApMac_unfold:
  "getPeerApMac E msg arr =
     (let s = getStartIndex msg jsonPeerApMac 0; e = getEndIndex msg s
      in if 0 \<le> s \<and> e - s = 12
         then (True, stringToMac E (take 12 (drop (nat s) msg)) arr)
         else (False, arr))"
proof -
  let ?s = "getStartIndex msg jsonPeerApMac 0"
  let ?e = "getEndIndex msg ?s"
  show ?thesis
  proof (cases "0 \<le> ?s \<and> ?e - ?s = 12")
    case True
    then have "?e + 1 < int (length msg)" by (simp add: getEndIndex_bound)
    with True have "substring msg (to_unsigned ?s) (to_unsigned ?e)
                     = take (nat (?e - ?s)) (drop (nat ?s) msg)"
      by (intro substring_nonneg) simp_all
    with True show ?thesis by (simp add: getPeerApMac_def Let_def)
  next
    case False
    then show ?thesis by (auto simp: getPeerApMac_def Let_def)
  qed
qed

lemma span_length:
  assumes "0 \<le> s" "getEndIndex msg s - s = 12"
  shows "length (take 12 (drop (nat s) msg)) = 12"
proof -
  from assms have "getEndIndex msg s + 1 < int (length msg)" by (simp add: getEndIndex_bound)
  with assms show ?thesis by simp
qed

text \<open>
  Claim C7. \<open>getPeerStaMac\<close> and \<open>getPeerApMac\<close> return true exactly when the start
  locator finds the identifier and the span from the start locator's position to the end
  locator's position is 12 characters long. In every other case, a span of 10 characters
  among them, they return false and the caller's array is as it was. In the true case the
  array is what \<open>stringToMac\<close> makes of the 12 characters of the span.
\<close>

theorem getPeerMac_span_12:
  "(let s = getStartIndex msg jsonPeerStaMac 0; e = getEndIndex msg s
    in (fst (getPeerStaMac E msg arr) \<longleftrightarrow> 0 \<le> s \<and> e - s = 12)
     \<and> (\<not> (0 \<le> s \<and> e - s = 12) \<longrightarrow> getPeerStaMac E msg arr = (False, arr))
     \<and> (0 \<le> s \<and> e - s = 12 \<longrightarrow>
          getPeerStaMac E msg arr = (True, stringToMac E (take 12 (drop (nat s) msg)) arr)
          \<and> length (take 12 (drop (nat s) msg)) = 12))
   \<and> (let s = getStartIndex msg jsonPeerApMac 0; e = getEndIndex msg s
    in (fst (getPeerApMac E msg arr) \<longleftrightarrow> 0 \<le> s \<and> e - s = 12)
     \<and> (\<not> (0 \<le> s \<and> e - s = 12) \<longrightarrow> getPeerApMac E msg arr = (False, arr))
     \<and> (0 \<le> s \<and> e - s = 12 \<longrightarrow>
          getPeerApMac E msg arr = (True, stringToMac E (take 12 (drop (nat s) msg)) arr)
          \<and> length (take 12 (drop (nat s) msg)) = 12))"
  using span_length [of "getStartIndex msg jsonPeerStaMac 0" msg]
    span_length [of "getStartIndex msg jsonPeerApMac 0" msg]
  by (simp add: getPeerStaMac_unfold [of E msg arr] getPeerApMac_unfold [of E msg arr] Let_def)


theorem getPeerMac_span_12_witness:
  \<open>getStartIndex ''{"arguments":{"peerStaMac":"5CCF7F010203","peerApMac":"5ECF7F0102"}}''
       jsonPeerStaMac 0 = 28
   \<and> getEndIndex ''{"arguments":{"peerStaMac":"5CCF7F010203","peerApMac":"5ECF7F0102"}}'' 28 = 40
   \<and> getPeerStaMac sampleCollaborators
         ''{"arguments":{"peerStaMac":"5CCF7F010203","peerApMac":"5ECF7F0102"}}'' [0, 0, 0, 0, 0, 0]
       = (True, [0x5C, 0xCF, 0x7F, 1, 2, 3])
   \<and> getStartIndex ''{"arguments":{"peerStaMac":"5CCF7F010203","peerApMac":"5ECF7F0102"}}''
       jsonPeerApMac 0 = 55
   \<and> getEndIndex ''{"arguments":{"peerStaMac":"5CCF7F010203","peerApMac":"5ECF7F0102"}}'' 55 = 65
   \<and> getPeerApMac sampleCollaborators
         ''{"arguments":{"peerStaMac":"5CCF7F010203","peerApMac":"5ECF7F0102"}}'' [0, 0, 0, 0, 0, 0]
       = (False, [0, 0, 0, 0, 0, 0])\<close>
proof -
  let ?m = \<open>''{"arguments":{"peerStaMac":"5CCF7F010203","peerApMac":"5ECF7F0102"}}''\<close>
  have s1: "getStartIndex ?m jsonPeerStaMac 0 = 28"
    by (simp add: getStartIndex_def indexOf_def to_unsigned_def jsonPeerStaMac_def)
  have e1: "getEndIndex ?m 28 = 40"
    by (simp add: getEndIndex_def indexOfChar_def to_unsigned_def)
  have s2: "getStartIndex ?m jsonPeerApMac 0 = 55"
    by (simp add: getStartIndex_def indexOf_def to_unsigned_def jsonPeerApMac_def)
  have e2: "getEndIndex ?m 55 = 65"
    by (simp add: getEndIndex_def indexOfChar_def to_unsigned_def)
  have c: \<open>stringToMac sampleCollaborators ''5CCF7F010203'' [0, 0, 0, 0, 0, 0]
            = [0x5C, 0xCF, 0x7F, 1, 2, 3]\<close>
    by (simp add: sampleCollaborators_def hexValue_def digitValue_def upt_rec)
  show ?thesis
    using getPeerMac_span_12 [of ?m sampleCollaborators "[0, 0, 0, 0, 0, 0]"] s1 e1 s2 e2 c
    by simp
qed

section \<open>The HMAC verifier\<close>

lemma getHmac_cases:
  "getHmac msg r = (False, r) \<or> (\<exists>h. getHmac msg r = (True, h))"
  by (simp add: getHmac_def Let_def)

lemma getHmac_True_start:
  "getHmac msg r = (True, h) \<Longrightarrow> 0 \<le> getStartIndex msg jsonHmac 0"
  by (simp add: getHmac_def Let_def split: if_splits)

lemma verifyEncryptionRequestHmac_extracted:
  assumes g: "getHmac msg [] = (True, h)" and k: "firstOccurrence msg jsonHmac k"
  shows "verifyEncryptionRequestHmac E msg sta ap key keyLength \<longleftrightarrow>
           length h = 2 * SHA256_NATURAL_LENGTH
           \<and> verifyMeshHmac E (macToString E sta @ macToString E ap @ take k msg) h key keyLength"
proof -
  have ne: "jsonHmac \<noteq> []" by (simp add: jsonHmac_def)
  then have i: "indexOf msg jsonHmac 0 = int k" using k by (rule indexOf_first)
  from ne k have "k + length jsonHmac \<le> length msg" by (rule firstOccurrence_le_length)
  then have "substring msg 0 (to_unsigned (int k)) = take k msg"
    by (simp add: to_unsigned_int substring_le)
  with g i show ?thesis by (simp add: verifyEncryptionRequestHmac_def)
qed

text \<open>
  Claim C3. \<open>verifyEncryptionRequestHmac\<close> returns false when \<open>getHmac\<close> does not
  extract a tag, and when the extracted tag is not \<open>2 * SHA256_NATURAL_LENGTH\<close> characters
  long. When a tag of that length is extracted, the hmac identifier has a first occurrence
  in the message, and the result is the verdict of \<open>verifyMeshHmac\<close> on the station
  address text, the access point address text and the message before that first
  occurrence, with the extracted tag and the key.
\<close>

theorem verifyEncryptionRequestHmac_cases:
  "(\<not> fst (getHmac msg []) \<longrightarrow> \<not> verifyEncryptionRequestHmac E msg sta ap key keyLength)
   \<and> (\<forall>h. getHmac msg [] = (True, h) \<and> length h \<noteq> 2 * SHA256_NATURAL_LENGTH \<longrightarrow>
          \<not> verifyEncryptionRequestHmac E msg sta ap key keyLength)
   \<and> (\<forall>h. getHmac msg [] = (True, h) \<and> length h = 2 * SHA256_NATURAL_LENGTH \<longrightarrow>
          (\<exists>k. firstOccurrence msg jsonHmac k
             \<and> (verifyEncryptionRequestHmac E msg sta ap key keyLength \<longleftrightarrow>
                  verifyMeshHmac E (macToString E sta @ macToString E ap @ take k msg)
                    h key keyLength)))"
proof (intro conjI allI impI)
  assume "\<not> fst (getHmac msg [])"
  then show "\<not> verifyEncryptionRequestHmac E msg sta ap key keyLength"
    by (cases "getHmac msg []") (simp add: verifyEncryptionRequestHmac_def)
next
  fix h
  assume a: "getHmac msg [] = (True, h) \<and> length h \<noteq> 2 * SHA256_NATURAL_LENGTH"
  then show "\<not> verifyEncryptionRequestHmac E msg sta ap key keyLength"
    by (simp add: verifyEncryptionRequestHmac_def Let_def)
next
  fix h
  assume a: "getHmac msg [] = (True, h) \<and> length h = 2 * SHA256_NATURAL_LENGTH"
  then have "0 \<le> getStartIndex msg jsonHmac 0" using getHmac_True_start by blast
  moreover have "jsonHmac \<noteq> []" by (simp add: jsonHmac_def)
  ultimately have "sublist jsonHmac msg"
    using getStartIndex_negative_iff [of jsonHmac msg] by auto
  then obtain k where k: "firstOccurrence msg jsonHmac k"
    using sublist_firstOccurrence by blast
  with a show "\<exists>k. firstOccurrence msg jsonHmac k
             \<and> (verifyEncryptionRequestHmac E msg sta ap key keyLength \<longleftrightarrow>
                  verifyMeshHmac E (macToString E sta @ macToString E ap @ take k msg)
                    h key keyLength)"
    using verifyEncryptionRequestHmac_extracted [of msg h k E sta ap key keyLength] by auto
qed

lemma firstOccurrence_iff_strstr:
  "k \<le> length s \<Longrightarrow> firstOccurrence s p k \<longleftrightarrow> strstr s p = Some k"
  by (simp add: strstr_Some_iff)

theorem verifyEncryptionRequestHmac_cases_witness:
  \<open>getHmac ''X:{"arguments":{"nonce":"1F2","hmac":"9ABCDEF012ABCDEF9ABCDEF012ABCDEF9ABCDEF012ABCDEF9ABCDEF012ABCDEF"}}'' []
     = (True, ''9ABCDEF012ABCDEF9ABCDEF012ABCDEF9ABCDEF012ABCDEF9ABCDEF012ABCDEF'')
   \<and> length ''9ABCDEF012ABCDEF9ABCDEF012ABCDEF9ABCDEF012ABCDEF9ABCDEF012ABCDEF''
       = 2 * SHA256_NATURAL_LENGTH
   \<and> firstOccurrence ''X:{"arguments":{"nonce":"1F2","hmac":"9ABCDEF012ABCDEF9ABCDEF012ABCDEF9ABCDEF012ABCDEF9ABCDEF012ABCDEF"}}'' jsonHmac 30
   \<and> verifyEncryptionRequestHmac sampleCollaborators
        ''X:{"arguments":{"nonce":"1F2","hmac":"9ABCDEF012ABCDEF9ABCDEF012ABCDEF9ABCDEF012ABCDEF9ABCDEF012ABCDEF"}}''
        [0x5C, 0xCF, 0x7F, 1, 2, 3] [0x5E, 0xCF, 0x7F, 1, 2, 3] [1, 2, 3] 3
   \<and> getHmac ''X:{"arguments":{"nonce":"1F2","hmac":"9A"}}'' [] = (True, ''9A'')
   \<and> \<not> verifyEncryptionRequestHmac sampleCollaborators ''X:{"arguments":{"nonce":"1F2","hmac":"9A"}}''
        [0x5C, 0xCF, 0x7F, 1, 2, 3] [0x5E, 0xCF, 0x7F, 1, 2, 3] [1, 2, 3] 3
   \<and> \<not> fst (getHmac ''X:{"arguments":{"nonce":"1F2"}}'' [])
   \<and> \<not> verifyEncryptionRequestHmac sampleCollaborators ''X:{"arguments":{"nonce":"1F2"}}''
        [0x5C, 0xCF, 0x7F, 1, 2, 3] [0x5E, 0xCF, 0x7F, 1, 2, 3] [1, 2, 3] 3\<close>
proof -
  let ?a = \<open>''X:{"arguments":{"nonce":"1F2","hmac":"9ABCDEF012ABCDEF9ABCDEF012ABCDEF9ABCDEF012ABCDEF9ABCDEF012ABCDEF"}}''\<close>
  let ?h = \<open>''9ABCDEF012ABCDEF9ABCDEF012ABCDEF9ABCDEF012ABCDEF9ABCDEF012ABCDEF''\<close>
  let ?b = \<open>''X:{"arguments":{"nonce":"1F2","hmac":"9A"}}''\<close>
  let ?c = \<open>''X:{"arguments":{"nonce":"1F2"}}''\<close>
  let ?sta = "[0x5C, 0xCF, 0x7F, 1, 2, 3] :: 8 word list"
  let ?ap = "[0x5E, 0xCF, 0x7F, 1, 2, 3] :: 8 word list"
  have ga: "getHmac ?a [] = (True, ?h)"
    by (simp add: getHmac_def getStartIndex_def getEndIndex_def indexOf_def indexOfChar_def
        to_unsigned_def jsonHmac_def substring_def)
  have la: "length ?h = 2 * SHA256_NATURAL_LENGTH" by (simp add: SHA256_NATURAL_LENGTH_def)
  have fa: "firstOccurrence ?a jsonHmac 30"
    by (simp add: firstOccurrence_iff_strstr jsonHmac_def)
  have gb: "getHmac ?b [] = (True, ''9A'')"
    by (simp add: getHmac_def getStartIndex_def getEndIndex_def indexOf_def indexOfChar_def
        to_unsigned_def jsonHmac_def substring_def)
  have lb: "length ''9A'' \<noteq> 2 * SHA256_NATURAL_LENGTH" by (simp add: SHA256_NATURAL_LENGTH_def)
  have gc: "\<not> fst (getHmac ?c [])"
    by (simp add: getHmac_def getStartIndex_def indexOf_def to_unsigned_def jsonHmac_def)
  from verifyEncryptionRequestHmac_cases [of ?a sampleCollaborators ?sta ?ap "[1, 2, 3]" 3] ga la
  obtain k where k: "firstOccurrence ?a jsonHmac k"
    and v: "verifyEncryptionRequestHmac sampleCollaborators ?a ?sta ?ap [1, 2, 3] 3 \<longleftrightarrow>
             verifyMeshHmac sampleCollaborators
               (macToString sampleCollaborators ?sta @ macToString sampleCollaborators ?ap @ take k ?a)
               ?h [1, 2, 3] 3"
    by blast
  from k fa have "k = 30" by (rule firstOccurrence_unique)
  moreover have "verifyMeshHmac sampleCollaborators
               (macToString sampleCollaborators ?sta @ macToString sampleCollaborators ?ap @ take 30 ?a)
               ?h [1, 2, 3] 3"
    by (simp add: sampleCollaborators_def hexByte_def sampleHmac_def)
  ultimately have va: "verifyEncryptionRequestHmac sampleCollaborators ?a ?sta ?ap [1, 2, 3] 3"
    using v by blast
  have vb: "\<not> verifyEncryptionRequestHmac sampleCollaborators ?b ?sta ?ap [1, 2, 3] 3"
    using verifyEncryptionRequestHmac_cases [of ?b sampleCollaborators ?sta ?ap "[1, 2, 3]" 3] gb lb
    by blast
  have vc: "\<not> verifyEncryptionRequestHmac sampleCollaborators ?c ?sta ?ap [1, 2, 3] 3"
    using verifyEncryptionRequestHmac_cases [of ?c sampleCollaborators ?sta ?ap "[1, 2, 3]" 3] gc
    by blast
  from ga la fa va gb vb gc vc show ?thesis by blast
qed

section \<open>The connection state\<close>

lemma indexOfChar_0_nonneg_iff: "0 \<le> indexOfChar s ch 0 \<longleftrightarrow> ch \<in> set s"
  using indexOfChar_cases [of ch 0 s] by (auto dest: firstAtOrAfter_in_set)

lemma indexOf_nonneg_iff: "p \<noteq> [] \<Longrightarrow> 0 \<le> indexOf s p 0 \<longleftrightarrow> sublist p s"
proof
  assume "p \<noteq> []" "0 \<le> indexOf s p 0"
  then show "sublist p s" using indexOf_absent [of p s] by auto
next
  assume "p \<noteq> []" "sublist p s"
  then obtain k where "firstOccurrence s p k" using sublist_firstOccurrence by blast
  with \<open>p \<noteq> []\<close> have "indexOf s p 0 = int k" by (rule indexOf_first)
  then show "0 \<le> indexOf s p 0" by simp
qed

lemma getConnectionState_absent:
  "\<not> (sublist jsonConnectionState msg \<and> CHR ''}'' \<in> set msg) \<Longrightarrow>
     getConnectionState msg r = (False, r)"
proof -
  assume a: "\<not> (sublist jsonConnectionState msg \<and> CHR ''}'' \<in> set msg)"
  have ne: "jsonConnectionState \<noteq> []" by (simp add: jsonConnectionState_def)
  from a have "indexOf msg jsonConnectionState 0 < 0 \<or> indexOfChar msg (CHR ''}'') 0 < 0"
    using indexOf_nonneg_iff [OF ne, of msg] indexOfChar_0_nonneg_iff [of msg "CHR ''}''"]
    by auto
  then show ?thesis by (auto simp: getConnectionState_def Let_def)
qed

lemma getConnectionState_present:
  assumes s: "firstOccurrence msg jsonConnectionState s"
    and e: "firstAtOrAfter msg (CHR ''}'') 0 e"
  shows "getConnectionState msg r = (True, substring msg s (e + 1))"
proof -
  have ne: "jsonConnectionState \<noteq> []" by (simp add: jsonConnectionState_def)
  then have "indexOf msg jsonConnectionState 0 = int s" using s by (rule indexOf_first)
  moreover have "indexOfChar msg (CHR ''}'') 0 = int e" using e by (rule indexOfChar_first)
  moreover have "to_unsigned (int e + 1) = e + 1" by (simp add: to_unsigned_def)
  ultimately show ?thesis by (simp add: getConnectionState_def to_unsigned_int)
qed

lemma brace_after_identifier:
  assumes s: "firstOccurrence msg jsonConnectionState s"
    and e: "firstAtOrAfter msg (CHR ''}'') 0 e" and se: "s \<le> e"
  shows "s + length jsonConnectionState \<le> e"
proof (rule ccontr)
  assume "\<not> s + length jsonConnectionState \<le> e"
  then have lt: "e - s < length jsonConnectionState" using se by arith
  from s have "prefix jsonConnectionState (drop s msg)" by (simp add: firstOccurrence_def)
  then obtain rest where r: "drop s msg = jsonConnectionState @ rest" by (auto simp: prefix_def)
  from e have "e < length msg" "msg ! e = CHR ''}''" by (simp_all add: firstAtOrAfter_def)
  then have "drop s msg ! (e - s) = CHR ''}''" using se by simp
  with r lt have "jsonConnectionState ! (e - s) = CHR ''}''" by (simp add: nth_append)
  with lt have "CHR ''}'' \<in> set jsonConnectionState" by (metis nth_mem)
  then show False by (simp add: jsonConnectionState_def)
qed

text \<open>
  Claim C10. \<open>getConnectionState\<close> returns true exactly when the connectionState
  identifier occurs in the message and the message contains a closing brace. When the
  first closing brace of the whole message is not before the first occurrence of the
  identifier, the result is the text from that occurrence through that brace, both
  included, so it begins with the identifier itself. When the first closing brace comes
  before the identifier, the result is the text strictly between that brace and the
  identifier: it ends where the identifier begins and holds nothing of the field's value.
\<close>

theorem getConnectionState_result:
  "(fst (getConnectionState msg r) \<longleftrightarrow> sublist jsonConnectionState msg \<and> CHR ''}'' \<in> set msg)
   \<and> (\<forall>s e. firstOccurrence msg jsonConnectionState s \<and> firstAtOrAfter msg (CHR ''}'') 0 e
          \<and> s \<le> e \<longrightarrow>
        getConnectionState msg r = (True, take (e + 1 - s) (drop s msg))
        \<and> take (e + 1 - s) (drop s msg)
            = jsonConnectionState
              @ take (e + 1 - (s + length jsonConnectionState))
                  (drop (s + length jsonConnectionState) msg))
   \<and> (\<forall>s e. firstOccurrence msg jsonConnectionState s \<and> firstAtOrAfter msg (CHR ''}'') 0 e
          \<and> e < s \<longrightarrow>
        getConnectionState msg r = (True, take (s - (e + 1)) (drop (e + 1) msg))
        \<and> msg = take e msg @ [CHR ''}''] @ take (s - (e + 1)) (drop (e + 1) msg) @ drop s msg)"
proof (intro conjI allI impI)
  show "fst (getConnectionState msg r) \<longleftrightarrow>
          sublist jsonConnectionState msg \<and> CHR ''}'' \<in> set msg"
  proof (cases "sublist jsonConnectionState msg \<and> CHR ''}'' \<in> set msg")
    case False
    then show ?thesis using getConnectionState_absent [of msg r] by auto
  next
    case True
    then obtain s where s: "firstOccurrence msg jsonConnectionState s"
      using sublist_firstOccurrence by blast
    from True obtain e where e: "firstAtOrAfter msg (CHR ''}'') 0 e"
      using indexOfChar_cases [of "CHR ''}''" 0 msg] by auto
    from s e True show ?thesis using getConnectionState_present [of msg s e r] by simp
  qed
next
  fix s e
  assume a: "firstOccurrence msg jsonConnectionState s \<and> firstAtOrAfter msg (CHR ''}'') 0 e
          \<and> s \<le> e"
  then have el: "e < length msg" by (simp add: firstAtOrAfter_def)
  with a have "substring msg s (e + 1) = take (e + 1 - s) (drop s msg)"
    by (simp add: substring_le)
  with a show "getConnectionState msg r = (True, take (e + 1 - s) (drop s msg))"
    using getConnectionState_present [of msg s e r] by simp
next
  fix s e
  assume a: "firstOccurrence msg jsonConnectionState s \<and> firstAtOrAfter msg (CHR ''}'') 0 e
          \<and> s \<le> e"
  then have b: "s + length jsonConnectionState \<le> e"
    using brace_after_identifier [of msg s e] by blast
  from a have "prefix jsonConnectionState (drop s msg)" by (simp add: firstOccurrence_def)
  then obtain rest where r: "drop s msg = jsonConnectionState @ rest" by (auto simp: prefix_def)
  then have "drop (s + length jsonConnectionState) msg = rest"
    by (metis add.commute append_eq_conv_conj drop_drop)
  moreover have "e + 1 - s - length jsonConnectionState = e + 1 - (s + length jsonConnectionState)"
    by arith
  moreover have "length jsonConnectionState \<le> e + 1 - s" using b by arith
  ultimately show "take (e + 1 - s) (drop s msg)
            = jsonConnectionState
              @ take (e + 1 - (s + length jsonConnectionState))
                  (drop (s + length jsonConnectionState) msg)"
    using r by simp
next
  fix s e
  assume a: "firstOccurrence msg jsonConnectionState s \<and> firstAtOrAfter msg (CHR ''}'') 0 e
          \<and> e < s"
  have ne: "jsonConnectionState \<noteq> []" by (simp add: jsonConnectionState_def)
  with a have "s + length jsonConnectionState \<le> length msg"
    using firstOccurrence_le_length by blast
  with a have "substring msg s (e + 1) = take (s - (e + 1)) (drop (e + 1) msg)"
    by (auto simp: substring_def Let_def min_def)
  with a show "getConnectionState msg r = (True, take (s - (e + 1)) (drop (e + 1) msg))"
    using getConnectionState_present [of msg s e r] by simp
next
  fix s e
  assume a: "firstOccurrence msg jsonConnectionState s \<and> firstAtOrAfter msg (CHR ''}'') 0 e
          \<and> e < s"
  have ne: "jsonConnectionState \<noteq> []" by (simp add: jsonConnectionState_def)
  with a have sl: "s \<le> length msg"
    using firstOccurrence_le_length [of jsonConnectionState msg s] by simp
  from a have el: "e < length msg" and ee: "msg ! e = CHR ''}''"
    by (simp_all add: firstAtOrAfter_def)
  have "msg = take e msg @ drop e msg" by simp
  also have "drop e msg = msg ! e # drop (e + 1) msg" using el by (simp add: Cons_nth_drop_Suc)
  also have "drop (e + 1) msg
               = take (s - (e + 1)) (drop (e + 1) msg) @ drop (s - (e + 1)) (drop (e + 1) msg)"
    by (rule append_take_drop_id [symmetric])
  also have "drop (s - (e + 1)) (drop (e + 1) msg) = drop s msg" using a by simp
  finally show "msg = take e msg @ [CHR ''}''] @ take (s - (e + 1)) (drop (e + 1) msg) @ drop s msg"
    using ee by simp
qed


theorem getConnectionState_result_witness:
  \<open>firstOccurrence ''{"arguments":{"connectionState":"5"}}'' jsonConnectionState 14
   \<and> firstAtOrAfter ''{"arguments":{"connectionState":"5"}}'' (CHR ''}'') 0 35
   \<and> getConnectionState ''{"arguments":{"connectionState":"5"}}'' [] = (True, ''"connectionState":"5"}'')
   \<and> firstOccurrence ''}abc"connectionState":"5"}'' jsonConnectionState 4
   \<and> firstAtOrAfter ''}abc"connectionState":"5"}'' (CHR ''}'') 0 0
   \<and> getConnectionState ''}abc"connectionState":"5"}'' [] = (True, ''abc'')
   \<and> \<not> fst (getConnectionState ''{"arguments":{"connectionState":"5"'' [])\<close>
proof -
  let ?a = \<open>''{"arguments":{"connectionState":"5"}}''\<close>
  let ?b = \<open>''}abc"connectionState":"5"}''\<close>
  let ?c = \<open>''{"arguments":{"connectionState":"5"''\<close>
  have sa: "firstOccurrence ?a jsonConnectionState 14"
    by (simp add: firstOccurrence_iff_strstr jsonConnectionState_def)
  have ea: "firstAtOrAfter ?a (CHR ''}'') 0 35"
    by (simp add: firstAtOrAfter_iff_strchr)
  have sb: "firstOccurrence ?b jsonConnectionState 4"
    by (simp add: firstOccurrence_iff_strstr jsonConnectionState_def)
  have eb: "firstAtOrAfter ?b (CHR ''}'') 0 0"
    by (simp add: firstAtOrAfter_iff_strchr)
  have nc: "CHR ''}'' \<notin> set ?c" by simp
  have "firstOccurrence ?a jsonConnectionState 14 \<and> firstAtOrAfter ?a (CHR ''}'') 0 35
          \<and> (14::nat) \<le> 35 \<longrightarrow>
        getConnectionState ?a [] = (True, take (35 + 1 - 14) (drop 14 ?a))"
    using getConnectionState_result [of ?a "[]"] by blast
  with sa ea have ra: \<open>getConnectionState ?a [] = (True, ''"connectionState":"5"}'')\<close>
    by simp
  have "firstOccurrence ?b jsonConnectionState 4 \<and> firstAtOrAfter ?b (CHR ''}'') 0 0
          \<and> (0::nat) < 4 \<longrightarrow>
        getConnectionState ?b [] = (True, take (4 - (0 + 1)) (drop (0 + 1) ?b))"
    using getConnectionState_result [of ?b "[]"] by blast
  with sb eb have rb: "getConnectionState ?b [] = (True, ''abc'')"
    by simp
  have rc: "\<not> fst (getConnectionState ?c [])"
    using getConnectionState_result [of ?c "[]"] nc by blast
  from sa ea ra sb eb rb rc show ?thesis by blast
qed

section \<open>The numeric getters\<close>

lemma digitValue_decimal:
  "isDecimalDigit c \<Longrightarrow> digitValue c = Some (of_char c - 48) \<and> (of_char c :: nat) - 48 < 10"
  by (auto simp: isDecimalDigit_def digitValue_def Let_def)

lemma digitValue_other:
  "\<not> isDecimalDigit c \<Longrightarrow> digitValue c = None \<or> (\<exists>d. digitValue c = Some d \<and> 10 \<le> d)"
  by (auto simp: isDecimalDigit_def digitValue_def Let_def)

lemma foldl_decimal_ge:
  "acc \<le> foldl (\<lambda>a c. a * 10 + (of_char c - 48)) (acc :: nat) ds"
proof (induction ds arbitrary: acc)
  case Nil
  then show ?case by simp
next
  case (Cons d ds)
  have "acc \<le> acc * 10 + (of_char d - 48)" by simp
  also have "\<dots> \<le> foldl (\<lambda>a c. a * 10 + (of_char c - 48)) (acc * 10 + (of_char d - 48)) ds"
    by (rule Cons.IH)
  finally show ?case by simp
qed

lemma strtoul_digits_decimal:
  "foldl (\<lambda>a c. a * 10 + (of_char c - 48)) acc (takeWhile isDecimalDigit s) \<le> ULONG_MAX \<Longrightarrow>
   strtoul_digits 10 s acc False
     = (foldl (\<lambda>a c. a * 10 + (of_char c - 48)) acc (takeWhile isDecimalDigit s), False)"
proof (induction s arbitrary: acc)
  case Nil
  then show ?case by simp
next
  case (Cons c cs)
  show ?case
  proof (cases "isDecimalDigit c")
    case False
    then show ?thesis using digitValue_other [of c] by auto
  next
    case True
    let ?d = "of_char c - 48 :: nat"
    from True have dv: "digitValue c = Some ?d" and d10: "?d < 10"
      using digitValue_decimal by auto
    from Cons.prems True
    have b: "foldl (\<lambda>a c. a * 10 + (of_char c - 48)) (acc * 10 + ?d) (takeWhile isDecimalDigit cs)
               \<le> ULONG_MAX"
      by simp
    then have "acc * 10 + ?d \<le> ULONG_MAX"
      using foldl_decimal_ge [of "acc * 10 + ?d" "takeWhile isDecimalDigit cs"] by linarith
    then have fit: "\<not> (ULONG_MAX div 10 < acc \<or> (acc = ULONG_MAX div 10 \<and> ULONG_MAX mod 10 < ?d))"
      by (simp add: ULONG_MAX_def)
    have "strtoul_digits 10 (c # cs) acc False = strtoul_digits 10 cs (acc * 10 + ?d) False"
      using dv d10 fit by auto
    also have "\<dots> = (foldl (\<lambda>a c. a * 10 + (of_char c - 48)) (acc * 10 + ?d)
                        (takeWhile isDecimalDigit cs), False)"
      using b by (rule Cons.IH)
    finally show ?thesis using True by simp
  qed
qed

lemma isDecimalDigit_not_space: "isDecimalDigit c \<Longrightarrow> \<not> isspace c \<and> c \<noteq> CHR ''-'' \<and> c \<noteq> CHR ''+''"
  by (auto simp: isDecimalDigit_def isspace_def)

lemma strtoul_plainDecimal:
  assumes "plainDecimal s"
  shows "unat (strtoul s) = leadingDigitsValue s"
proof (cases s)
  case Nil
  with assms show ?thesis by (simp add: plainDecimal_def)
next
  case (Cons c t)
  show ?thesis
  proof (cases "c = CHR ''0''")
    case False
    with assms Cons have dig: "isDecimalDigit c" and small: "leadingDigitsValue s < 2 ^ 32"
      by (simp_all add: plainDecimal_def)
    from dig have ns: "\<not> isspace c" "c \<noteq> CHR ''-''" "c \<noteq> CHR ''+''"
      using isDecimalDigit_not_space by auto
    from small have "leadingDigitsValue s \<le> ULONG_MAX" by (simp add: ULONG_MAX_def)
    then have "strtoul_digits 10 s 0 False = (leadingDigitsValue s, False)"
      unfolding leadingDigitsValue_def by (rule strtoul_digits_decimal)
    then have "strtoul s = word_of_nat (leadingDigitsValue s)"
      using Cons False ns by (simp add: strtoul_def Let_def)
    with small show ?thesis by (simp add: unat_of_nat)
  next
    case True
    have z: "isDecimalDigit (CHR ''0'')" "\<not> isspace (CHR ''0'')"
      by (simp_all add: isDecimalDigit_def isspace_def)
    have dz: "digitValue (CHR ''0'') = Some 0" by (simp add: digitValue_def)
    show ?thesis
    proof (cases t)
      case Nil
      with Cons True show ?thesis
        by (simp add: strtoul_def z dz leadingDigitsValue_def ULONG_MAX_def)
    next
      case (Cons c' u)
      with assms \<open>s = c # t\<close> True
      have nd: "\<not> isDecimalDigit c'" and nx: "c' \<noteq> CHR ''x''" "c' \<noteq> CHR ''X''"
        by (simp_all add: plainDecimal_def)
      from nd have "strtoul_digits 8 (c' # u) 0 False = (0, False)"
        using digitValue_other [of c'] by auto
      then have "strtoul s = 0"
        using \<open>s = c # t\<close> Cons True nx
        by (simp add: strtoul_def z dz ULONG_MAX_def)
      moreover have "leadingDigitsValue s = 0"
        using \<open>s = c # t\<close> Cons True nd by (simp add: leadingDigitsValue_def z)
      ultimately show ?thesis by simp
    qed
  qed
qed

lemma getDuration_present:
  assumes "firstOccurrence msg jsonDuration k"
  shows "getDuration msg r = (True, strtoul (drop (k + length jsonDuration + 1) msg))"
proof -
  have "jsonDuration \<noteq> []" by (simp add: jsonDuration_def)
  then have "getStartIndex msg jsonDuration 0 = int (k + length jsonDuration + 1)"
    using assms by (rule getStartIndex_first)
  moreover have "to_unsigned (int (k + length jsonDuration + 1)) = k + length jsonDuration + 1"
    by (rule to_unsigned_int)
  ultimately show ?thesis
    by (simp only: getDuration_def substringFrom_drop Let_def) simp
qed

lemma getUnsynchronizedMessageID_present:
  assumes "firstOccurrence msg jsonUnsynchronizedMessageID k"
  shows "getUnsynchronizedMessageID msg r
           = (True, strtoul (drop (k + length jsonUnsynchronizedMessageID + 1) msg))"
proof -
  have "jsonUnsynchronizedMessageID \<noteq> []" by (simp add: jsonUnsynchronizedMessageID_def)
  then have "getStartIndex msg jsonUnsynchronizedMessageID 0
               = int (k + length jsonUnsynchronizedMessageID + 1)"
    using assms by (rule getStartIndex_first)
  moreover have "to_unsigned (int (k + length jsonUnsynchronizedMessageID + 1))
                   = k + length jsonUnsynchronizedMessageID + 1"
    by (rule to_unsigned_int)
  ultimately show ?thesis
    by (simp only: getUnsynchronizedMessageID_def substringFrom_drop Let_def) simp
qed

lemma getDesync_present:
  assumes "firstOccurrence msg jsonDesync k"
  shows "getDesync msg b = (True, strtoul (drop (k + length jsonDesync + 1) msg) \<noteq> 0)"
proof -
  have "jsonDesync \<noteq> []" by (simp add: jsonDesync_def)
  then have "getStartIndex msg jsonDesync 0 = int (k + length jsonDesync + 1)"
    using assms by (rule getStartIndex_first)
  moreover have "to_unsigned (int (k + length jsonDesync + 1)) = k + length jsonDesync + 1"
    by (rule to_unsigned_int)
  ultimately show ?thesis
    by (simp only: getDesync_def substringFrom_drop Let_def) simp
qed

lemma strtoul_nonzero_plainDecimal:
  "plainDecimal v \<Longrightarrow> strtoul v \<noteq> 0 \<longleftrightarrow> leadingDigitsValue v \<noteq> 0"
  using strtoul_plainDecimal [of v] by (auto simp: unat_eq_0 [symmetric])

text \<open>
  Claim C9, as the code has it. When its identifier occurs in the message, each of
  \<open>getDuration\<close>, \<open>getUnsynchronizedMessageID\<close> and \<open>getDesync\<close> returns true, whatever
  follows the value: no comma or closing brace is needed. The output is what \<open>strtoul\<close>
  with base 0 reads from the text that runs from the value start to the end of the
  message (for \<open>getDesync\<close>: whether that number is not zero). On a plain decimal value
  text this is the number read from the leading digits up to the first character that is
  no digit.
\<close>

theorem numeric_getters_strtoul:
  "(sublist jsonDuration msg \<longrightarrow>
      (\<exists>k. firstOccurrence msg jsonDuration k \<and>
         (let v = drop (k + length jsonDuration + 1) msg
          in getDuration msg r = (True, strtoul v)
           \<and> (plainDecimal v \<longrightarrow> unat (strtoul v) = leadingDigitsValue v))))
   \<and> (sublist jsonUnsynchronizedMessageID msg \<longrightarrow>
      (\<exists>k. firstOccurrence msg jsonUnsynchronizedMessageID k \<and>
         (let v = drop (k + length jsonUnsynchronizedMessageID + 1) msg
          in getUnsynchronizedMessageID msg r = (True, strtoul v)
           \<and> (plainDecimal v \<longrightarrow> unat (strtoul v) = leadingDigitsValue v))))
   \<and> (sublist jsonDesync msg \<longrightarrow>
      (\<exists>k. firstOccurrence msg jsonDesync k \<and>
         (let v = drop (k + length jsonDesync + 1) msg
          in getDesync msg b = (True, strtoul v \<noteq> 0)
           \<and> (plainDecimal v \<longrightarrow> (strtoul v \<noteq> 0 \<longleftrightarrow> leadingDigitsValue v \<noteq> 0)))))"
proof (intro conjI impI)
  assume "sublist jsonDuration msg"
  then obtain k where k: "firstOccurrence msg jsonDuration k"
    using sublist_firstOccurrence by blast
  then show "\<exists>k. firstOccurrence msg jsonDuration k \<and>
         (let v = drop (k + length jsonDuration + 1) msg
          in getDuration msg r = (True, strtoul v)
           \<and> (plainDecimal v \<longrightarrow> unat (strtoul v) = leadingDigitsValue v))"
    using getDuration_present [OF k, of r] strtoul_plainDecimal
    unfolding Let_def by blast
next
  assume "sublist jsonUnsynchronizedMessageID msg"
  then obtain k where k: "firstOccurrence msg jsonUnsynchronizedMessageID k"
    using sublist_firstOccurrence by blast
  then show "\<exists>k. firstOccurrence msg jsonUnsynchronizedMessageID k \<and>
         (let v = drop (k + length jsonUnsynchronizedMessageID + 1) msg
          in getUnsynchronizedMessageID msg r = (True, strtoul v)
           \<and> (plainDecimal v \<longrightarrow> unat (strtoul v) = leadingDigitsValue v))"
    using getUnsynchronizedMessageID_present [OF k, of r] strtoul_plainDecimal
    unfolding Let_def by blast
next
  assume "sublist jsonDesync msg"
  then obtain k where k: "firstOccurrence msg jsonDesync k"
    using sublist_firstOccurrence by blast
  then show "\<exists>k. firstOccurrence msg jsonDesync k \<and>
         (let v = drop (k + length jsonDesync + 1) msg
          in getDesync msg b = (True, strtoul v \<noteq> 0)
           \<and> (plainDecimal v \<longrightarrow> (strtoul v \<noteq> 0 \<longleftrightarrow> leadingDigitsValue v \<noteq> 0)))"
    using getDesync_present [OF k, of b] strtoul_nonzero_plainDecimal
    unfolding Let_def by blast
qed


theorem numeric_getters_strtoul_witness:
  \<open>sublist jsonDuration ''{"arguments":{"duration":"5000","nonce":"1F2"}}''
   \<and> plainDecimal ''5000","nonce":"1F2"}}''
   \<and> getDuration ''{"arguments":{"duration":"5000","nonce":"1F2"}}'' 7 = (True, 5000)
   \<and> sublist jsonUnsynchronizedMessageID ''{"unsynchronizedMessageID":"123''
   \<and> getUnsynchronizedMessageID ''{"unsynchronizedMessageID":"123'' 7 = (True, 123)
   \<and> sublist jsonDesync ''{"desync":"1"}}''
   \<and> getDesync ''{"desync":"1"}}'' False = (True, True)\<close>
proof -
  let ?a = \<open>''{"arguments":{"duration":"5000","nonce":"1F2"}}''\<close>
  let ?b = \<open>''{"unsynchronizedMessageID":"123''\<close>
  let ?c = \<open>''{"desync":"1"}}''\<close>
  have fa: "firstOccurrence ?a jsonDuration 14"
    by (simp add: firstOccurrence_iff_strstr jsonDuration_def)
  have fb: "firstOccurrence ?b jsonUnsynchronizedMessageID 1"
    by (simp add: firstOccurrence_iff_strstr jsonUnsynchronizedMessageID_def)
  have fc: "firstOccurrence ?c jsonDesync 1"
    by (simp add: firstOccurrence_iff_strstr jsonDesync_def)
  have sa: "sublist jsonDuration ?a" using fa by (rule firstOccurrence_sublist)
  have sb: "sublist jsonUnsynchronizedMessageID ?b" using fb by (rule firstOccurrence_sublist)
  have sc: "sublist jsonDesync ?c" using fc by (rule firstOccurrence_sublist)
  have pa: \<open>plainDecimal ''5000","nonce":"1F2"}}''\<close>
    by (simp add: plainDecimal_def isDecimalDigit_def leadingDigitsValue_def)
  have la: \<open>leadingDigitsValue ''5000","nonce":"1F2"}}'' = 5000\<close>
    by (simp add: isDecimalDigit_def leadingDigitsValue_def)
  have vb: \<open>strtoul ''123'' = 123\<close>
    by (simp add: strtoul_def isspace_def digitValue_def ULONG_MAX_def)
  have vc: \<open>strtoul ''1"}}'' = 1\<close>
    by (simp add: strtoul_def isspace_def digitValue_def ULONG_MAX_def)
  from numeric_getters_strtoul [of ?a 7] sa
  obtain k where k: "firstOccurrence ?a jsonDuration k"
    and p: "let v = drop (k + length jsonDuration + 1) ?a
          in getDuration ?a 7 = (True, strtoul v)
           \<and> (plainDecimal v \<longrightarrow> unat (strtoul v) = leadingDigitsValue v)"
    by blast
  from k fa have "k = 14" by (rule firstOccurrence_unique)
  with p pa la have g: \<open>getDuration ?a 7 = (True, strtoul ''5000","nonce":"1F2"}}'')\<close>
    and u: \<open>unat (strtoul ''5000","nonce":"1F2"}}'') = 5000\<close>
    by (simp_all add: jsonDuration_def Let_def)
  have \<open>strtoul ''5000","nonce":"1F2"}}'' = word_of_nat (unat (strtoul ''5000","nonce":"1F2"}}''))\<close>
    by simp
  also have "\<dots> = 5000" by (simp only: u) simp
  finally have ra: "getDuration ?a 7 = (True, 5000)" using g by simp
  from numeric_getters_strtoul [of ?b 7] sb
  obtain j where j: "firstOccurrence ?b jsonUnsynchronizedMessageID j"
    and q: "let v = drop (j + length jsonUnsynchronizedMessageID + 1) ?b
          in getUnsynchronizedMessageID ?b 7 = (True, strtoul v)
           \<and> (plainDecimal v \<longrightarrow> unat (strtoul v) = leadingDigitsValue v)"
    by blast
  from j fb have "j = 1" by (rule firstOccurrence_unique)
  with q vb have rb: "getUnsynchronizedMessageID ?b 7 = (True, 123)"
    by (simp add: jsonUnsynchronizedMessageID_def Let_def)
  from numeric_getters_strtoul [of ?c _ False] sc
  obtain i where i: "firstOccurrence ?c jsonDesync i"
    and t: "let v = drop (i + length jsonDesync + 1) ?c
          in getDesync ?c False = (True, strtoul v \<noteq> 0)
           \<and> (plainDecimal v \<longrightarrow> (strtoul v \<noteq> 0 \<longleftrightarrow> leadingDigitsValue v \<noteq> 0))"
    by blast
  from i fc have "i = 1" by (rule firstOccurrence_unique)
  with t vc have rc: "getDesync ?c False = (True, True)"
    by (simp add: jsonDesync_def Let_def)
  from sa pa ra sb rb sc rc show ?thesis by blast
qed

text \<open>
  The claim as it is worded fails on the value \<open>0x10\<close>: the leading digits read up to the
  first character that is no digit give 0, and \<open>getDuration\<close> gives 16.
\<close>

theorem numeric_getters_leading_digits_counterexample:
  \<open>sublist jsonDuration ''{"arguments":{"duration":"0x10"}}''
   \<and> getStartIndex ''{"arguments":{"duration":"0x10"}}'' jsonDuration 0 = 26
   \<and> getDuration ''{"arguments":{"duration":"0x10"}}'' 7 = (True, 16)
   \<and> leadingDigitsValue (substringFrom ''{"arguments":{"duration":"0x10"}}'' 26) = 0
   \<and> unat (snd (getDuration ''{"arguments":{"duration":"0x10"}}'' 7))
       \<noteq> leadingDigitsValue (substringFrom ''{"arguments":{"duration":"0x10"}}'' 26)\<close>
proof -
  let ?m = \<open>''{"arguments":{"duration":"0x10"}}''\<close>
  have "firstOccurrence ?m jsonDuration 14"
    by (simp add: firstOccurrence_iff_strstr jsonDuration_def)
  then have s: "sublist jsonDuration ?m" by (rule firstOccurrence_sublist)
  have g: "getStartIndex ?m jsonDuration 0 = 26"
    by (simp add: getStartIndex_def indexOf_def to_unsigned_def jsonDuration_def)
  have v: \<open>strtoul ''0x10"}}'' = 16\<close>
    by (simp add: strtoul_def isspace_def digitValue_def ULONG_MAX_def)
  have d: "getDuration ?m 7 = (True, 16)"
    by (simp add: getDuration_def g to_unsigned_def substringFrom_drop v)
  have l: "leadingDigitsValue (substringFrom ?m 26) = 0"
    by (simp add: substringFrom_drop leadingDigitsValue_def isDecimalDigit_def)
  from s g d l show ?thesis by simp
qed

section \<open>All getters\<close>

lemma field_cases:
  "\<not> sublist ident msg \<or> fieldTruncated msg ident \<or> (\<exists>vs e. fieldSpan msg ident vs e)"
proof (cases "sublist ident msg")
  case False
  then show ?thesis by simp
next
  case True
  then obtain k where k: "firstOccurrence msg ident k" using sublist_firstOccurrence by blast
  let ?vs = "k + length ident + 1"
  show ?thesis
    using indexOfChar_cases [of "CHR '',''" ?vs msg] indexOfChar_cases [of "CHR ''}''" ?vs msg] k
    unfolding fieldSpan_def fieldTruncated_def by blast
qed

lemma locate_absent:
  "\<not> sublist ident msg \<Longrightarrow> getStartIndex msg ident 0 < 0"
  by (simp add: getStartIndex_absent)

lemma locate_truncated:
  assumes "ident \<noteq> []" "fieldTruncated msg ident"
  shows "0 \<le> getStartIndex msg ident 0 \<and> getEndIndex msg (getStartIndex msg ident 0) < 0"
proof -
  from assms(2) obtain k where k: "firstOccurrence msg ident k"
    and c: "CHR '','' \<notin> set (drop (k + length ident + 1) msg)"
    and b: "CHR ''}'' \<notin> set (drop (k + length ident + 1) msg)"
    unfolding fieldTruncated_def by blast
  define n where "n = k + length ident + 1"
  from assms(1) k have s: "getStartIndex msg ident 0 = int n"
    unfolding n_def by (rule getStartIndex_first)
  have "getEndIndex msg (int n) = - 2"
    using getEndIndex_neither [of "int n" msg] c b unfolding n_def [symmetric] by simp
  with s show ?thesis by simp
qed

lemma locate_span:
  assumes "ident \<noteq> []" "fieldSpan msg ident vs e"
  shows "getStartIndex msg ident 0 = int vs \<and> getEndIndex msg (int vs) = int (e - 1)
         \<and> 1 \<le> vs \<and> vs \<le> e \<and> e < length msg"
proof -
  from assms(2) obtain k where k: "firstOccurrence msg ident k" and vs: "vs = k + length ident + 1"
    and d: "firstAtOrAfter msg (CHR '','') vs e
        \<or> (CHR '','' \<notin> set (drop vs msg) \<and> firstAtOrAfter msg (CHR ''}'') vs e)"
    unfolding fieldSpan_def by blast
  from assms(1) k vs have s: "getStartIndex msg ident 0 = int vs"
    by (simp add: getStartIndex_first)
  from d have b: "vs \<le> e \<and> e < length msg" by (auto simp: firstAtOrAfter_def)
  from d have "getEndIndex msg (int vs) = int e - 1"
    using getEndIndex_comma [of "int vs" msg e] getEndIndex_brace [of "int vs" msg e] by auto
  moreover have "1 \<le> vs" using vs by simp
  ultimately show ?thesis using s b by auto
qed

lemma to_unsigned_pred: "1 \<le> e \<Longrightarrow> to_unsigned (int e - 1) = e - 1"
  by (simp add: to_unsigned_def)

lemma getPassword_total:
  "(\<not> sublist jsonPassword msg \<or> fieldTruncated msg jsonPassword \<longrightarrow>
       getPassword msg r = (False, r))
   \<and> (\<forall>vs e. fieldSpan msg jsonPassword vs e \<longrightarrow>
       getPassword msg r = (True, substring msg vs (e - 1)))"
proof -
  have ne: "jsonPassword \<noteq> []" by (simp add: jsonPassword_def)
  have a: "getPassword msg r = (False, r)" if "\<not> sublist jsonPassword msg"
    using locate_absent [OF that] by (simp add: getPassword_def Let_def)
  have b: "getPassword msg r = (False, r)" if "fieldTruncated msg jsonPassword"
    using locate_truncated [OF ne that] by (simp add: getPassword_def Let_def)
  have c: "getPassword msg r = (True, substring msg vs (e - 1))"
    if "fieldSpan msg jsonPassword vs e" for vs e
    using locate_span [OF ne that]
    by (simp add: getPassword_def Let_def to_unsigned_int to_unsigned_pred)
  from a b c show ?thesis by blast
qed


lemma getNonce_total:
  "(\<not> sublist jsonNonce msg \<or> fieldTruncated msg jsonNonce \<longrightarrow>
       getNonce msg r = (False, r))
   \<and> (\<forall>vs e. fieldSpan msg jsonNonce vs e \<longrightarrow>
       getNonce msg r = (True, substring msg vs (e - 1)))"
proof -
  have ne: "jsonNonce \<noteq> []" by (simp add: jsonNonce_def)
  have a: "getNonce msg r = (False, r)" if "\<not> sublist jsonNonce msg"
    using locate_absent [OF that] by (simp add: getNonce_def Let_def)
  have b: "getNonce msg r = (False, r)" if "fieldTruncated msg jsonNonce"
    using locate_truncated [OF ne that] by (simp add: getNonce_def Let_def)
  have c: "getNonce msg r = (True, substring msg vs (e - 1))"
    if "fieldSpan msg jsonNonce vs e" for vs e
    using locate_span [OF ne that]
    by (simp add: getNonce_def Let_def to_unsigned_int to_unsigned_pred)
  from a b c show ?thesis by blast
qed

lemma getHmac_total:
  "(\<not> sublist jsonHmac msg \<or> fieldTruncated msg jsonHmac \<longrightarrow>
       getHmac msg r = (False, r))
   \<and> (\<forall>vs e. fieldSpan msg jsonHmac vs e \<longrightarrow>
       getHmac msg r = (True, substring msg vs (e - 1)))"
proof -
  have ne: "jsonHmac \<noteq> []" by (simp add: jsonHmac_def)
  have a: "getHmac msg r = (False, r)" if "\<not> sublist jsonHmac msg"
    using locate_absent [OF that] by (simp add: getHmac_def Let_def)
  have b: "getHmac msg r = (False, r)" if "fieldTruncated msg jsonHmac"
    using locate_truncated [OF ne that] by (simp add: getHmac_def Let_def)
  have c: "getHmac msg r = (True, substring msg vs (e - 1))"
    if "fieldSpan msg jsonHmac vs e" for vs e
    using locate_span [OF ne that]
    by (simp add: getHmac_def Let_def to_unsigned_int to_unsigned_pred)
  from a b c show ?thesis by blast
qed

lemma getOwnSessionKey_total:
  "(\<not> sublist jsonOwnSessionKey msg \<or> fieldTruncated msg jsonOwnSessionKey \<longrightarrow>
       getOwnSessionKey E msg r = (False, r))
   \<and> (\<forall>vs e. fieldSpan msg jsonOwnSessionKey vs e \<longrightarrow>
       getOwnSessionKey E msg r = (True, stringToUint64 E (substring msg vs (e - 1))))"
proof -
  have ne: "jsonOwnSessionKey \<noteq> []" by (simp add: jsonOwnSessionKey_def)
  have a: "getOwnSessionKey E msg r = (False, r)" if "\<not> sublist jsonOwnSessionKey msg"
    using locate_absent [OF that] by (simp add: getOwnSessionKey_def Let_def)
  have b: "getOwnSessionKey E msg r = (False, r)" if "fieldTruncated msg jsonOwnSessionKey"
    using locate_truncated [OF ne that] by (simp add: getOwnSessionKey_def Let_def)
  have c: "getOwnSessionKey E msg r = (True, stringToUint64 E (substring msg vs (e - 1)))"
    if "fieldSpan msg jsonOwnSessionKey vs e" for vs e
    using locate_span [OF ne that]
    by (simp add: getOwnSessionKey_def Let_def to_unsigned_int to_unsigned_pred)
  from a b c show ?thesis by blast
qed

lemma getPeerSessionKey_total:
  "(\<not> sublist jsonPeerSessionKey msg \<or> fieldTruncated msg jsonPeerSessionKey \<longrightarrow>
       getPeerSessionKey E msg r = (False, r))
   \<and> (\<forall>vs e. fieldSpan msg jsonPeerSessionKey vs e \<longrightarrow>
       getPeerSessionKey E msg r = (True, stringToUint64 E (substring msg vs (e - 1))))"
proof -
  have ne: "jsonPeerSessionKey \<noteq> []" by (simp add: jsonPeerSessionKey_def)
  have a: "getPeerSessionKey E msg r = (False, r)" if "\<not> sublist jsonPeerSessionKey msg"
    using locate_absent [OF that] by (simp add: getPeerSessionKey_def Let_def)
  have b: "getPeerSessionKey E msg r = (False, r)" if "fieldTruncated msg jsonPeerSessionKey"
    using locate_truncated [OF ne that] by (simp add: getPeerSessionKey_def Let_def)
  have c: "getPeerSessionKey E msg r = (True, stringToUint64 E (substring msg vs (e - 1)))"
    if "fieldSpan msg jsonPeerSessionKey vs e" for vs e
    using locate_span [OF ne that]
    by (simp add: getPeerSessionKey_def Let_def to_unsigned_int to_unsigned_pred)
  from a b c show ?thesis by blast
qed

lemma getPeerStaMac_total:
  "(\<not> sublist jsonPeerStaMac msg \<or> fieldTruncated msg jsonPeerStaMac \<longrightarrow>
       getPeerStaMac E msg arr = (False, arr))
   \<and> (\<forall>vs e. fieldSpan msg jsonPeerStaMac vs e \<and> e \<noteq> vs + 13 \<longrightarrow>
       getPeerStaMac E msg arr = (False, arr))
   \<and> (\<forall>vs e. fieldSpan msg jsonPeerStaMac vs e \<and> e = vs + 13 \<longrightarrow>
       getPeerStaMac E msg arr = (True, stringToMac E (substring msg vs (e - 1)) arr))"
proof -
  have ne: "jsonPeerStaMac \<noteq> []" by (simp add: jsonPeerStaMac_def)
  have a: "getPeerStaMac E msg arr = (False, arr)" if "\<not> sublist jsonPeerStaMac msg"
    using locate_absent [OF that] by (simp add: getPeerStaMac_def Let_def)
  have b: "getPeerStaMac E msg arr = (False, arr)" if "fieldTruncated msg jsonPeerStaMac"
    using locate_truncated [OF ne that] by (simp add: getPeerStaMac_def Let_def)
  have c: "getPeerStaMac E msg arr = (False, arr)"
    if "fieldSpan msg jsonPeerStaMac vs e" "e \<noteq> vs + 13" for vs e
  proof -
    from locate_span [OF ne that(1)]
    have s: "getStartIndex msg jsonPeerStaMac 0 = int vs" and e: "getEndIndex msg (int vs) = int (e - 1)"
      and o: "1 \<le> vs" "vs \<le> e" by simp_all
    from that(2) o have "int (e - 1) - int vs \<noteq> 12" by arith
    with s e show ?thesis by (simp add: getPeerStaMac_def Let_def)
  qed
  have d: "getPeerStaMac E msg arr = (True, stringToMac E (substring msg vs (e - 1)) arr)"
    if "fieldSpan msg jsonPeerStaMac vs e" "e = vs + 13" for vs e
  proof -
    from locate_span [OF ne that(1)]
    have s: "getStartIndex msg jsonPeerStaMac 0 = int vs" and e: "getEndIndex msg (int vs) = int (e - 1)"
      and o: "1 \<le> vs" "vs \<le> e" by simp_all
    from that(2) have "int (e - 1) - int vs = 12" by simp
    moreover have "to_unsigned (int (e - 1)) = e - 1" by (rule to_unsigned_int)
    ultimately show ?thesis using s e
      by (simp only: getPeerStaMac_def Let_def to_unsigned_int) simp
  qed
  from a b c d show ?thesis by blast
qed

lemma getPeerApMac_total:
  "(\<not> sublist jsonPeerApMac msg \<or> fieldTruncated msg jsonPeerApMac \<longrightarrow>
       getPeerApMac E msg arr = (False, arr))
   \<and> (\<forall>vs e. fieldSpan msg jsonPeerApMac vs e \<and> e \<noteq> vs + 13 \<longrightarrow>
       getPeerApMac E msg arr = (False, arr))
   \<and> (\<forall>vs e. fieldSpan msg jsonPeerApMac vs e \<and> e = vs + 13 \<longrightarrow>
       getPeerApMac E msg arr = (True, stringToMac E (substring msg vs (e - 1)) arr))"
proof -
  have ne: "jsonPeerApMac \<noteq> []" by (simp add: jsonPeerApMac_def)
  have a: "getPeerApMac E msg arr = (False, arr)" if "\<not> sublist jsonPeerApMac msg"
    using locate_absent [OF that] by (simp add: getPeerApMac_def Let_def)
  have b: "getPeerApMac E msg arr = (False, arr)" if "fieldTruncated msg jsonPeerApMac"
    using locate_truncated [OF ne that] by (simp add: getPeerApMac_def Let_def)
  have c: "getPeerApMac E msg arr = (False, arr)"
    if "fieldSpan msg jsonPeerApMac vs e" "e \<noteq> vs + 13" for vs e
  proof -
    from locate_span [OF ne that(1)]
    have s: "getStartIndex msg jsonPeerApMac 0 = int vs" and e: "getEndIndex msg (int vs) = int (e - 1)"
      and o: "1 \<le> vs" "vs \<le> e" by simp_all
    from that(2) o have "int (e - 1) - int vs \<noteq> 12" by arith
    with s e show ?thesis by (simp add: getPeerApMac_def Let_def)
  qed
  have d: "getPeerApMac E msg arr = (True, stringToMac E (substring msg vs (e - 1)) arr)"
    if "fieldSpan msg jsonPeerApMac vs e" "e = vs + 13" for vs e
  proof -
    from locate_span [OF ne that(1)]
    have s: "getStartIndex msg jsonPeerApMac 0 = int vs" and e: "getEndIndex msg (int vs) = int (e - 1)"
      and o: "1 \<le> vs" "vs \<le> e" by simp_all
    from that(2) have "int (e - 1) - int vs = 12" by simp
    moreover have "to_unsigned (int (e - 1)) = e - 1" by (rule to_unsigned_int)
    ultimately show ?thesis using s e
      by (simp only: getPeerApMac_def Let_def to_unsigned_int) simp
  qed
  from a b c d show ?thesis by blast
qed

lemma getConnectionState_total:
  "(\<not> sublist jsonConnectionState msg \<or> CHR ''}'' \<notin> set msg \<longrightarrow>
       getConnectionState msg r = (False, r))
   \<and> (\<forall>s e. firstOccurrence msg jsonConnectionState s \<and> firstAtOrAfter msg (CHR ''}'') 0 e \<longrightarrow>
       getConnectionState msg r = (True, substring msg s (e + 1)))"
  using getConnectionState_absent [of msg r] getConnectionState_present [of msg _ _ r]
  by blast

lemma getDuration_total:
  "(\<not> sublist jsonDuration msg \<longrightarrow> getDuration msg r = (False, r))
   \<and> (\<forall>k. firstOccurrence msg jsonDuration k \<longrightarrow>
       getDuration msg r = (True, strtoul (drop (k + length jsonDuration + 1) msg)))"
  using getDuration_present [of msg _ r] locate_absent [of jsonDuration msg]
  by (auto simp: getDuration_def Let_def)

lemma getUnsynchronizedMessageID_total:
  "(\<not> sublist jsonUnsynchronizedMessageID msg \<longrightarrow>
       getUnsynchronizedMessageID msg r = (False, r))
   \<and> (\<forall>k. firstOccurrence msg jsonUnsynchronizedMessageID k \<longrightarrow>
       getUnsynchronizedMessageID msg r
         = (True, strtoul (drop (k + length jsonUnsynchronizedMessageID + 1) msg)))"
  using getUnsynchronizedMessageID_present [of msg _ r]
    locate_absent [of jsonUnsynchronizedMessageID msg]
  by (auto simp: getUnsynchronizedMessageID_def Let_def)

lemma getDesync_total:
  "(\<not> sublist jsonDesync msg \<longrightarrow> getDesync msg b = (False, b))
   \<and> (\<forall>k. firstOccurrence msg jsonDesync k \<longrightarrow>
       getDesync msg b = (True, strtoul (drop (k + length jsonDesync + 1) msg) \<noteq> 0))"
  using getDesync_present [of msg _ b] locate_absent [of jsonDesync msg]
  by (auto simp: getDesync_def Let_def)

lemma getMeshMessageCount_total:
  "(\<not> sublist jsonMeshMessageCount msg \<longrightarrow> getMeshMessageCount msg c = Inr (False, c))
   \<and> (\<forall>k. firstOccurrence msg jsonMeshMessageCount k \<longrightarrow>
       (let v = strtoul (drop (k + length jsonMeshMessageCount + 1) msg)
        in (unat v \<le> 65535 \<longrightarrow> getMeshMessageCount msg c = Inr (True, ucast v))
         \<and> (65535 < unat v \<longrightarrow> getMeshMessageCount msg c = Inl AssertionFailed)))"
proof (intro conjI allI impI)
  assume "\<not> sublist jsonMeshMessageCount msg"
  then show "getMeshMessageCount msg c = Inr (False, c)"
    using locate_absent [of jsonMeshMessageCount msg]
    by (simp add: getMeshMessageCount_def Let_def)
next
  fix k
  assume k: "firstOccurrence msg jsonMeshMessageCount k"
  have le: "v \<le> 65535 \<longleftrightarrow> unat v \<le> 65535" for v :: "32 word"
    by (simp add: word_le_nat_alt)
  show "let v = strtoul (drop (k + length jsonMeshMessageCount + 1) msg)
        in (unat v \<le> 65535 \<longrightarrow> getMeshMessageCount msg c = Inr (True, ucast v))
         \<and> (65535 < unat v \<longrightarrow> getMeshMessageCount msg c = Inl AssertionFailed)"
    using getMeshMessageCount_present [OF k, of c] le by (simp add: Let_def)
qed


text \<open>
  Claim C8, as the code has it. Each getter is described on every message. A getter
  returns false, with its output as the caller passed it, when its identifier does not
  occur, and for the getters that bound the value by a delimiter also when no comma or
  closing brace follows the value start (for \<open>getConnectionState\<close>: when the message has no
  closing brace), and for the address getters also when the span is not 12 characters.
  Otherwise it returns true with the converted value written. \<open>getMeshMessageCount\<close>
  differs from the others in one case: a value above 65535 ends in the failed assertion,
  which is neither a return of false nor of true. No other outcome exists: the getters
  are total and raise nothing. The last conjunct says that the three cases of a
  delimited field cover every message.
\<close>

theorem getters_total:
  "((\<not> sublist jsonConnectionState msg \<or> CHR ''}'' \<notin> set msg \<longrightarrow>
       getConnectionState msg r = (False, r))
    \<and> (\<forall>s e. firstOccurrence msg jsonConnectionState s \<and> firstAtOrAfter msg (CHR ''}'') 0 e \<longrightarrow>
       getConnectionState msg r = (True, substring msg s (e + 1))))
   \<and> ((\<not> sublist jsonPassword msg \<or> fieldTruncated msg jsonPassword \<longrightarrow>
       getPassword msg r = (False, r))
    \<and> (\<forall>vs e. fieldSpan msg jsonPassword vs e \<longrightarrow>
       getPassword msg r = (True, substring msg vs (e - 1))))
   \<and> ((\<not> sublist jsonNonce msg \<or> fieldTruncated msg jsonNonce \<longrightarrow>
       getNonce msg r = (False, r))
    \<and> (\<forall>vs e. fieldSpan msg jsonNonce vs e \<longrightarrow>
       getNonce msg r = (True, substring msg vs (e - 1))))
   \<and> ((\<not> sublist jsonHmac msg \<or> fieldTruncated msg jsonHmac \<longrightarrow>
       getHmac msg r = (False, r))
    \<and> (\<forall>vs e. fieldSpan msg jsonHmac vs e \<longrightarrow>
       getHmac msg r = (True, substring msg vs (e - 1))))
   \<and> ((\<not> sublist jsonOwnSessionKey msg \<or> fieldTruncated msg jsonOwnSessionKey \<longrightarrow>
       getOwnSessionKey E msg key = (False, key))
    \<and> (\<forall>vs e. fieldSpan msg jsonOwnSessionKey vs e \<longrightarrow>
       getOwnSessionKey E msg key = (True, stringToUint64 E (substring msg vs (e - 1)))))
   \<and> ((\<not> sublist jsonPeerSessionKey msg \<or> fieldTruncated msg jsonPeerSessionKey \<longrightarrow>
       getPeerSessionKey E msg key = (False, key))
    \<and> (\<forall>vs e. fieldSpan msg jsonPeerSessionKey vs e \<longrightarrow>
       getPeerSessionKey E msg key = (True, stringToUint64 E (substring msg vs (e - 1)))))
   \<and> ((\<not> sublist jsonPeerStaMac msg \<or> fieldTruncated msg jsonPeerStaMac \<longrightarrow>
       getPeerStaMac E msg arr = (False, arr))
    \<and> (\<forall>vs e. fieldSpan msg jsonPeerStaMac vs e \<and> e \<noteq> vs + 13 \<longrightarrow>
       getPeerStaMac E msg arr = (False, arr))
    \<and> (\<forall>vs e. fieldSpan msg jsonPeerStaMac vs e \<and> e = vs + 13 \<longrightarrow>
       getPeerStaMac E msg arr = (True, stringToMac E (substring msg vs (e - 1)) arr)))
   \<and> ((\<not> sublist jsonPeerApMac msg \<or> fieldTruncated msg jsonPeerApMac \<longrightarrow>
       getPeerApMac E msg arr = (False, arr))
    \<and> (\<forall>vs e. fieldSpan msg jsonPeerApMac vs e \<and> e \<noteq> vs + 13 \<longrightarrow>
       getPeerApMac E msg arr = (False, arr))
    \<and> (\<forall>vs e. fieldSpan msg jsonPeerApMac vs e \<and> e = vs + 13 \<longrightarrow>
       getPeerApMac E msg arr = (True, stringToMac E (substring msg vs (e - 1)) arr)))
   \<and> ((\<not> sublist jsonDuration msg \<longrightarrow> getDuration msg d = (False, d))
    \<and> (\<forall>k. firstOccurrence msg jsonDuration k \<longrightarrow>
       getDuration msg d = (True, strtoul (drop (k + length jsonDuration + 1) msg))))
   \<and> ((\<not> sublist jsonUnsynchronizedMessageID msg \<longrightarrow>
       getUnsynchronizedMessageID msg d = (False, d))
    \<and> (\<forall>k. firstOccurrence msg jsonUnsynchronizedMessageID k \<longrightarrow>
       getUnsynchronizedMessageID msg d
         = (True, strtoul (drop (k + length jsonUnsynchronizedMessageID + 1) msg))))
   \<and> ((\<not> sublist jsonDesync msg \<longrightarrow> getDesync msg b = (False, b))
    \<and> (\<forall>k. firstOccurrence msg jsonDesync k \<longrightarrow>
       getDesync msg b = (True, strtoul (drop (k + length jsonDesync + 1) msg) \<noteq> 0)))
   \<and> ((\<not> sublist jsonMeshMessageCount msg \<longrightarrow> getMeshMessageCount msg c = Inr (False, c))
    \<and> (\<forall>k. firstOccurrence msg jsonMeshMessageCount k \<longrightarrow>
       (let v = strtoul (drop (k + length jsonMeshMessageCount + 1) msg)
        in (unat v \<le> 65535 \<longrightarrow> getMeshMessageCount msg c = Inr (True, ucast v))
         \<and> (65535 < unat v \<longrightarrow> getMeshMessageCount msg c = Inl AssertionFailed))))
   \<and> (\<forall>ident. \<not> sublist ident msg \<or> fieldTruncated msg ident
          \<or> (\<exists>vs e. fieldSpan msg ident vs e))"
  by (intro conjI)
    (rule allI [OF field_cases]
      getConnectionState_total [THEN conjunct1] getConnectionState_total [THEN conjunct2]
      getPassword_total [THEN conjunct1] getPassword_total [THEN conjunct2]
      getNonce_total [THEN conjunct1] getNonce_total [THEN conjunct2]
      getHmac_total [THEN conjunct1] getHmac_total [THEN conjunct2]
      getOwnSessionKey_total [THEN conjunct1] getOwnSessionKey_total [THEN conjunct2]
      getPeerSessionKey_total [THEN conjunct1] getPeerSessionKey_total [THEN conjunct2]
      getPeerStaMac_total [THEN conjunct1] getPeerStaMac_total [THEN conjunct2, THEN conjunct1]
      getPeerStaMac_total [THEN conjunct2, THEN conjunct2]
      getPeerApMac_total [THEN conjunct1] getPeerApMac_total [THEN conjunct2, THEN conjunct1]
      getPeerApMac_total [THEN conjunct2, THEN conjunct2]
      getDuration_total [THEN conjunct1] getDuration_total [THEN conjunct2]
      getUnsynchronizedMessageID_total [THEN conjunct1]
      getUnsynchronizedMessageID_total [THEN conjunct2]
      getDesync_total [THEN conjunct1] getDesync_total [THEN conjunct2]
      getMeshMessageCount_total [THEN conjunct1] getMeshMessageCount_total [THEN conjunct2])+

theorem getters_total_witness:
  \<open>getConnectionState ''{"arguments":{"connectionState":"1","password":"abc","nonce":"1F2","hmac":"AB"}}'' [] = (True, ''"connectionState":"1","password":"abc","nonce":"1F2","hmac":"AB"}'')
   \<and> getConnectionState ''{"arguments":{}}'' ''x'' = (False, ''x'')
   \<and> getPassword ''{"arguments":{"connectionState":"1","password":"abc","nonce":"1F2","hmac":"AB"}}'' [] = (True, ''abc'')
   \<and> getPassword ''{"arguments":{}}'' ''x'' = (False, ''x'')
   \<and> getNonce ''{"arguments":{"connectionState":"1","password":"abc","nonce":"1F2","hmac":"AB"}}'' [] = (True, ''1F2'')
   \<and> getNonce ''{"arguments":{}}'' ''x'' = (False, ''x'')
   \<and> getHmac ''{"arguments":{"connectionState":"1","password":"abc","nonce":"1F2","hmac":"AB"}}'' [] = (True, ''AB'')
   \<and> getHmac ''{"arguments":{}}'' ''x'' = (False, ''x'')
   \<and> getOwnSessionKey sampleCollaborators ''{"arguments":{"ownSK":"42","peerSK":"17","peerStaMac":"5CCF7F010203","peerApMac":"5ECF7F010203"}}'' 0 = (True, 42)
   \<and> getOwnSessionKey sampleCollaborators ''{"arguments":{}}'' 5 = (False, 5)
   \<and> getPeerSessionKey sampleCollaborators ''{"arguments":{"ownSK":"42","peerSK":"17","peerStaMac":"5CCF7F010203","peerApMac":"5ECF7F010203"}}'' 0 = (True, 17)
   \<and> getPeerSessionKey sampleCollaborators ''{"arguments":{}}'' 5 = (False, 5)
   \<and> getPeerStaMac sampleCollaborators ''{"arguments":{"ownSK":"42","peerSK":"17","peerStaMac":"5CCF7F010203","peerApMac":"5ECF7F010203"}}'' [0, 0, 0, 0, 0, 0] = (True, [92, 207, 127, 1, 2, 3])
   \<and> getPeerStaMac sampleCollaborators ''{"arguments":{}}'' [0, 0, 0, 0, 0, 0] = (False, [0, 0, 0, 0, 0, 0])
   \<and> getPeerApMac sampleCollaborators ''{"arguments":{"ownSK":"42","peerSK":"17","peerStaMac":"5CCF7F010203","peerApMac":"5ECF7F010203"}}'' [0, 0, 0, 0, 0, 0] = (True, [94, 207, 127, 1, 2, 3])
   \<and> getPeerApMac sampleCollaborators ''{"arguments":{}}'' [0, 0, 0, 0, 0, 0] = (False, [0, 0, 0, 0, 0, 0])
   \<and> getDuration ''{"arguments":{"duration":"5000","desync":"1","unsynchronizedMessageID":"123","meshMessageCount":"7"}}'' 7 = (True, 5000)
   \<and> getDuration ''{"arguments":{}}'' 7 = (False, 7)
   \<and> getUnsynchronizedMessageID ''{"arguments":{"duration":"5000","desync":"1","unsynchronizedMessageID":"123","meshMessageCount":"7"}}'' 7 = (True, 123)
   \<and> getUnsynchronizedMessageID ''{"arguments":{}}'' 7 = (False, 7)
   \<and> getDesync ''{"arguments":{"duration":"5000","desync":"1","unsynchronizedMessageID":"123","meshMessageCount":"7"}}'' False = (True, True)
   \<and> getDesync ''{"arguments":{}}'' False = (False, False)
   \<and> getMeshMessageCount ''{"arguments":{"duration":"5000","desync":"1","unsynchronizedMessageID":"123","meshMessageCount":"7"}}'' 9 = Inr (True, 7)
   \<and> getMeshMessageCount ''{"arguments":{}}'' 9 = Inr (False, 9)\<close>
proof -
  let ?a = \<open>''{"arguments":{"connectionState":"1","password":"abc","nonce":"1F2","hmac":"AB"}}''\<close>
  let ?b = \<open>''{"arguments":{"ownSK":"42","peerSK":"17","peerStaMac":"5CCF7F010203","peerApMac":"5ECF7F010203"}}''\<close>
  let ?c = \<open>''{"arguments":{"duration":"5000","desync":"1","unsynchronizedMessageID":"123","meshMessageCount":"7"}}''\<close>
  let ?n = \<open>''{"arguments":{}}''\<close>
  have cs1: "firstOccurrence ?a jsonConnectionState 14"
    by (simp add: firstOccurrence_iff_strstr jsonConnectionState_def)
  have cs2: "firstAtOrAfter ?a (CHR ''}'') 0 78"
    by (simp add: firstAtOrAfter_iff_strchr)
  have "firstOccurrence ?a jsonConnectionState 14 \<and> firstAtOrAfter ?a (CHR ''}'') 0 78 \<longrightarrow>
          getConnectionState ?a [] = (True, substring ?a 14 (78 + 1))"
    using getters_total [of ?a "[]", THEN conjunct1] by blast
  with cs1 cs2 have r1: \<open>getConnectionState ?a [] = (True, ''"connectionState":"1","password":"abc","nonce":"1F2","hmac":"AB"}'')\<close>
    by (simp add: substring_def)
  have "\<not> sublist jsonConnectionState ?n"
    by (simp add: strstr_None_iff [symmetric] jsonConnectionState_def)
  then have r2: "getConnectionState ?n ''x'' = (False, ''x'')"
    using getters_total [of ?n "''x''", THEN conjunct1] by blast
  have "firstOccurrence ?a jsonPassword 36"
    by (simp add: firstOccurrence_iff_strstr jsonPassword_def)
  moreover have "firstAtOrAfter ?a (CHR '','') 48 52"
    by (simp add: firstAtOrAfter_iff_strchr)
  ultimately have f3: "fieldSpan ?a jsonPassword 48 52"
    unfolding fieldSpan_def by (intro conjI exI [of _ 36] disjI1) (simp_all add: jsonPassword_def)
  have "fieldSpan ?a jsonPassword 48 52 \<longrightarrow>
          getPassword ?a [] = (True, substring ?a 48 (52 - 1))"
    using getters_total [of ?a "[]", THEN conjunct2, THEN conjunct1] by blast
  with f3 have r3: \<open>getPassword ?a [] = (True, ''abc'')\<close>
    by (simp add: substring_def)
  have "\<not> sublist jsonPassword ?n"
    by (simp add: strstr_None_iff [symmetric] jsonPassword_def)
  then have r4: "getPassword ?n ''x'' = (False, ''x'')"
    using getters_total [of ?n "''x''", THEN conjunct2, THEN conjunct1] by blast
  have "firstOccurrence ?a jsonNonce 53"
    by (simp add: firstOccurrence_iff_strstr jsonNonce_def)
  moreover have "firstAtOrAfter ?a (CHR '','') 62 66"
    by (simp add: firstAtOrAfter_iff_strchr)
  ultimately have f5: "fieldSpan ?a jsonNonce 62 66"
    unfolding fieldSpan_def by (intro conjI exI [of _ 53] disjI1) (simp_all add: jsonNonce_def)
  have "fieldSpan ?a jsonNonce 62 66 \<longrightarrow>
          getNonce ?a [] = (True, substring ?a 62 (66 - 1))"
    using getters_total [of ?a "[]", THEN conjunct2, THEN conjunct2, THEN conjunct1] by blast
  with f5 have r5: \<open>getNonce ?a [] = (True, ''1F2'')\<close>
    by (simp add: substring_def)
  have "\<not> sublist jsonNonce ?n"
    by (simp add: strstr_None_iff [symmetric] jsonNonce_def)
  then have r6: "getNonce ?n ''x'' = (False, ''x'')"
    using getters_total [of ?n "''x''", THEN conjunct2, THEN conjunct2, THEN conjunct1] by blast
  have "firstOccurrence ?a jsonHmac 67"
    by (simp add: firstOccurrence_iff_strstr jsonHmac_def)
  moreover have "CHR '','' \<notin> set (drop 75 ?a) \<and> firstAtOrAfter ?a (CHR ''}'') 75 78"
    by (simp add: firstAtOrAfter_iff_strchr)
  ultimately have f7: "fieldSpan ?a jsonHmac 75 78"
    unfolding fieldSpan_def by (intro conjI exI [of _ 67] disjI2) (simp_all add: jsonHmac_def)
  have "fieldSpan ?a jsonHmac 75 78 \<longrightarrow>
          getHmac ?a [] = (True, substring ?a 75 (78 - 1))"
    using getters_total [of ?a "[]", THEN conjunct2, THEN conjunct2, THEN conjunct2, THEN conjunct1] by blast
  with f7 have r7: \<open>getHmac ?a [] = (True, ''AB'')\<close>
    by (simp add: substring_def)
  have "\<not> sublist jsonHmac ?n"
    by (simp add: strstr_None_iff [symmetric] jsonHmac_def)
  then have r8: "getHmac ?n ''x'' = (False, ''x'')"
    using getters_total [of ?n "''x''", THEN conjunct2, THEN conjunct2, THEN conjunct2, THEN conjunct1] by blast
  have "firstOccurrence ?b jsonOwnSessionKey 14"
    by (simp add: firstOccurrence_iff_strstr jsonOwnSessionKey_def)
  moreover have "firstAtOrAfter ?b (CHR '','') 23 26"
    by (simp add: firstAtOrAfter_iff_strchr)
  ultimately have f9: "fieldSpan ?b jsonOwnSessionKey 23 26"
    unfolding fieldSpan_def by (intro conjI exI [of _ 14] disjI1) (simp_all add: jsonOwnSessionKey_def)
  have "fieldSpan ?b jsonOwnSessionKey 23 26 \<longrightarrow>
          getOwnSessionKey sampleCollaborators ?b 0 = (True, stringToUint64 sampleCollaborators (substring ?b 23 (26 - 1)))"
    using getters_total [of ?b _ sampleCollaborators 0, THEN conjunct2, THEN conjunct2, THEN conjunct2, THEN conjunct2, THEN conjunct1] by blast
  with f9 have r9: \<open>getOwnSessionKey sampleCollaborators ?b 0 = (True, 42)\<close>
    by (simp add: substring_def sampleCollaborators_def leadingDigitsValue_def isDecimalDigit_def)
  have "\<not> sublist jsonOwnSessionKey ?n"
    by (simp add: strstr_None_iff [symmetric] jsonOwnSessionKey_def)
  then have r10: "getOwnSessionKey sampleCollaborators ?n 5 = (False, 5)"
    using getters_total [of ?n _ sampleCollaborators 5, THEN conjunct2, THEN conjunct2, THEN conjunct2, THEN conjunct2, THEN conjunct1] by blast
  have "firstOccurrence ?b jsonPeerSessionKey 27"
    by (simp add: firstOccurrence_iff_strstr jsonPeerSessionKey_def)
  moreover have "firstAtOrAfter ?b (CHR '','') 37 40"
    by (simp add: firstAtOrAfter_iff_strchr)
  ultimately have f11: "fieldSpan ?b jsonPeerSessionKey 37 40"
    unfolding fieldSpan_def by (intro conjI exI [of _ 27] disjI1) (simp_all add: jsonPeerSessionKey_def)
  have "fieldSpan ?b jsonPeerSessionKey 37 40 \<longrightarrow>
          getPeerSessionKey sampleCollaborators ?b 0 = (True, stringToUint64 sampleCollaborators (substring ?b 37 (40 - 1)))"
    using getters_total [of ?b _ sampleCollaborators 0, THEN conjunct2, THEN conjunct2, THEN conjunct2, THEN conjunct2, THEN conjunct2, THEN conjunct1] by blast
  with f11 have r11: \<open>getPeerSessionKey sampleCollaborators ?b 0 = (True, 17)\<close>
    by (simp add: substring_def sampleCollaborators_def leadingDigitsValue_def isDecimalDigit_def)
  have "\<not> sublist jsonPeerSessionKey ?n"
    by (simp add: strstr_None_iff [symmetric] jsonPeerSessionKey_def)
  then have r12: "getPeerSessionKey sampleCollaborators ?n 5 = (False, 5)"
    using getters_total [of ?n _ sampleCollaborators 5, THEN conjunct2, THEN conjunct2, THEN conjunct2, THEN conjunct2, THEN conjunct2, THEN conjunct1] by blast
  have "firstOccurrence ?b jsonPeerStaMac 41"
    by (simp add: firstOccurrence_iff_strstr jsonPeerStaMac_def)
  moreover have "firstAtOrAfter ?b (CHR '','') 55 68"
    by (simp add: firstAtOrAfter_iff_strchr)
  ultimately have f13: "fieldSpan ?b jsonPeerStaMac 55 68"
    unfolding fieldSpan_def by (intro conjI exI [of _ 41] disjI1) (simp_all add: jsonPeerStaMac_def)
  have "fieldSpan ?b jsonPeerStaMac 55 68 \<and> (68::nat) = 55 + 13 \<longrightarrow>
          getPeerStaMac sampleCollaborators ?b [0, 0, 0, 0, 0, 0] = (True, stringToMac sampleCollaborators (substring ?b 55 (68 - 1)) [0, 0, 0, 0, 0, 0])"
    using getters_total [of ?b _ sampleCollaborators _ "[0, 0, 0, 0, 0, 0]", THEN conjunct2, THEN conjunct2, THEN conjunct2, THEN conjunct2, THEN conjunct2, THEN conjunct2, THEN conjunct1] by blast
  with f13 have r13: \<open>getPeerStaMac sampleCollaborators ?b [0, 0, 0, 0, 0, 0] = (True, [92, 207, 127, 1, 2, 3])\<close>
    by (simp add: substring_def sampleCollaborators_def hexValue_def digitValue_def upt_rec)
  have "\<not> sublist jsonPeerStaMac ?n"
    by (simp add: strstr_None_iff [symmetric] jsonPeerStaMac_def)
  then have r14: "getPeerStaMac sampleCollaborators ?n [0, 0, 0, 0, 0, 0] = (False, [0, 0, 0, 0, 0, 0])"
    using getters_total [of ?n _ sampleCollaborators _ "[0, 0, 0, 0, 0, 0]", THEN conjunct2, THEN conjunct2, THEN conjunct2, THEN conjunct2, THEN conjunct2, THEN conjunct2, THEN conjunct1] by blast
  have "firstOccurrence ?b jsonPeerApMac 69"
    by (simp add: firstOccurrence_iff_strstr jsonPeerApMac_def)
  moreover have "CHR '','' \<notin> set (drop 82 ?b) \<and> firstAtOrAfter ?b (CHR ''}'') 82 95"
    by (simp add: firstAtOrAfter_iff_strchr)
  ultimately have f15: "fieldSpan ?b jsonPeerApMac 82 95"
    unfolding fieldSpan_def by (intro conjI exI [of _ 69] disjI2) (simp_all add: jsonPeerApMac_def)
  have "fieldSpan ?b jsonPeerApMac 82 95 \<and> (95::nat) = 82 + 13 \<longrightarrow>
          getPeerApMac sampleCollaborators ?b [0, 0, 0, 0, 0, 0] = (True, stringToMac sampleCollaborators (substring ?b 82 (95 - 1)) [0, 0, 0, 0, 0, 0])"
    using getters_total [of ?b _ sampleCollaborators _ "[0, 0, 0, 0, 0, 0]", THEN conjunct2, THEN conjunct2, THEN conjunct2, THEN conjunct2, THEN conjunct2, THEN conjunct2, THEN conjunct2, THEN conjunct1] by blast
  with f15 have r15: \<open>getPeerApMac sampleCollaborators ?b [0, 0, 0, 0, 0, 0] = (True, [94, 207, 127, 1, 2, 3])\<close>
    by (simp add: substring_def sampleCollaborators_def hexValue_def digitValue_def upt_rec)
  have "\<not> sublist jsonPeerApMac ?n"
    by (simp add: strstr_None_iff [symmetric] jsonPeerApMac_def)
  then have r16: "getPeerApMac sampleCollaborators ?n [0, 0, 0, 0, 0, 0] = (False, [0, 0, 0, 0, 0, 0])"
    using getters_total [of ?n _ sampleCollaborators _ "[0, 0, 0, 0, 0, 0]", THEN conjunct2, THEN conjunct2, THEN conjunct2, THEN conjunct2, THEN conjunct2, THEN conjunct2, THEN conjunct2, THEN conjunct1] by blast
  have f17: "firstOccurrence ?c jsonDuration 14"
    by (simp add: firstOccurrence_iff_strstr jsonDuration_def)
  have "firstOccurrence ?c jsonDuration 14 \<longrightarrow>
          getDuration ?c 7 = (True, strtoul (drop (14 + length jsonDuration + 1) ?c))"
    using getters_total [of ?c _ _ _ _ 7, THEN conjunct2, THEN conjunct2, THEN conjunct2, THEN conjunct2, THEN conjunct2, THEN conjunct2, THEN conjunct2, THEN conjunct2, THEN conjunct1] by blast
  with f17 have r17: \<open>getDuration ?c 7 = (True, 5000)\<close>
    by (simp add: jsonDuration_def strtoul_def isspace_def digitValue_def ULONG_MAX_def)
  have "\<not> sublist jsonDuration ?n"
    by (simp add: strstr_None_iff [symmetric] jsonDuration_def)
  then have r18: "getDuration ?n 7 = (False, 7)"
    using getters_total [of ?n _ _ _ _ 7, THEN conjunct2, THEN conjunct2, THEN conjunct2, THEN conjunct2, THEN conjunct2, THEN conjunct2, THEN conjunct2, THEN conjunct2, THEN conjunct1] by blast
  have f19: "firstOccurrence ?c jsonUnsynchronizedMessageID 45"
    by (simp add: firstOccurrence_iff_strstr jsonUnsynchronizedMessageID_def)
  have "firstOccurrence ?c jsonUnsynchronizedMessageID 45 \<longrightarrow>
          getUnsynchronizedMessageID ?c 7 = (True, strtoul (drop (45 + length jsonUnsynchronizedMessageID + 1) ?c))"
    using getters_total [of ?c _ _ _ _ 7, THEN conjunct2, THEN conjunct2, THEN conjunct2, THEN conjunct2, THEN conjunct2, THEN conjunct2, THEN conjunct2, THEN conjunct2, THEN conjunct2, THEN conjunct1] by blast
  with f19 have r19: \<open>getUnsynchronizedMessageID ?c 7 = (True, 123)\<close>
    by (simp add: jsonUnsynchronizedMessageID_def strtoul_def isspace_def digitValue_def ULONG_MAX_def)
  have "\<not> sublist jsonUnsynchronizedMessageID ?n"
    by (simp add: strstr_None_iff [symmetric] jsonUnsynchronizedMessageID_def)
  then have r20: "getUnsynchronizedMessageID ?n 7 = (False, 7)"
    using getters_total [of ?n _ _ _ _ 7, THEN conjunct2, THEN conjunct2, THEN conjunct2, THEN conjunct2, THEN conjunct2, THEN conjunct2, THEN conjunct2, THEN conjunct2, THEN conjunct2, THEN conjunct1] by blast
  have f21: "firstOccurrence ?c jsonDesync 32"
    by (simp add: firstOccurrence_iff_strstr jsonDesync_def)
  have "firstOccurrence ?c jsonDesync 32 \<longrightarrow>
          getDesync ?c False = (True, strtoul (drop (32 + length jsonDesync + 1) ?c) \<noteq> 0)"
    using getters_total [of ?c _ _ _ _ _ False, THEN conjunct2, THEN conjunct2, THEN conjunct2, THEN conjunct2, THEN conjunct2, THEN conjunct2, THEN conjunct2, THEN conjunct2, THEN conjunct2, THEN conjunct2, THEN conjunct1] by blast
  with f21 have r21: \<open>getDesync ?c False = (True, True)\<close>
    by (simp add: jsonDesync_def strtoul_def isspace_def digitValue_def ULONG_MAX_def)
  have "\<not> sublist jsonDesync ?n"
    by (simp add: strstr_None_iff [symmetric] jsonDesync_def)
  then have r22: "getDesync ?n False = (False, False)"
    using getters_total [of ?n _ _ _ _ _ False, THEN conjunct2, THEN conjunct2, THEN conjunct2, THEN conjunct2, THEN conjunct2, THEN conjunct2, THEN conjunct2, THEN conjunct2, THEN conjunct2, THEN conjunct2, THEN conjunct1] by blast
  have f23: "firstOccurrence ?c jsonMeshMessageCount 77"
    by (simp add: firstOccurrence_iff_strstr jsonMeshMessageCount_def)
  have v23: \<open>strtoul (drop (77 + length jsonMeshMessageCount + 1) ?c) = 7\<close>
    by (simp add: jsonMeshMessageCount_def strtoul_def isspace_def digitValue_def ULONG_MAX_def)
  have "firstOccurrence ?c jsonMeshMessageCount 77 \<longrightarrow>
          (let v = strtoul (drop (77 + length jsonMeshMessageCount + 1) ?c)
           in (unat v \<le> 65535 \<longrightarrow> getMeshMessageCount ?c 9 = Inr (True, ucast v))
            \<and> (65535 < unat v \<longrightarrow> getMeshMessageCount ?c 9 = Inl AssertionFailed))"
    using getters_total [of ?c _ _ _ _ _ _ 9, THEN conjunct2, THEN conjunct2, THEN conjunct2, THEN conjunct2, THEN conjunct2, THEN conjunct2, THEN conjunct2, THEN conjunct2, THEN conjunct2, THEN conjunct2, THEN conjunct2, THEN conjunct1] by blast
  with f23 have r23: "getMeshMessageCount ?c 9 = Inr (True, 7)"
    by (simp only: v23 Let_def) simp
  have "\<not> sublist jsonMeshMessageCount ?n"
    by (simp add: strstr_None_iff [symmetric] jsonMeshMessageCount_def)
  then have r24: "getMeshMessageCount ?n 9 = Inr (False, 9)"
    using getters_total [of ?n _ _ _ _ _ _ 9, THEN conjunct2, THEN conjunct2, THEN conjunct2, THEN conjunct2, THEN conjunct2, THEN conjunct2, THEN conjunct2, THEN conjunct2, THEN conjunct2, THEN conjunct2, THEN conjunct2, THEN conjunct1] by blast
  show ?thesis
    by (intro conjI) (fact r1 r2 r3 r4 r5 r6 r7 r8 r9 r10 r11 r12 r13 r14 r15 r16 r17 r18 r19 r20 r21 r22 r23 r24)+
qed

text \<open>
  The claim as it is worded fails for \<open>getMeshMessageCount\<close> on the value 65536: the
  getter returns neither false nor true.
\<close>

theorem getters_return_counterexample:
  \<open>sublist jsonMeshMessageCount ''{"arguments":{"meshMessageCount":"65536"}}''
   \<and> isl (getMeshMessageCount ''{"arguments":{"meshMessageCount":"65536"}}'' 9)
   \<and> getMeshMessageCount ''{"arguments":{"meshMessageCount":"65536"}}'' 9 = Inl AssertionFailed\<close>
proof -
  let ?m = \<open>''{"arguments":{"meshMessageCount":"65536"}}''\<close>
  have f: "firstOccurrence ?m jsonMeshMessageCount 14"
    by (simp add: firstOccurrence_iff_strstr jsonMeshMessageCount_def)
  then have s: "sublist jsonMeshMessageCount ?m" by (rule firstOccurrence_sublist)
  have v: \<open>strtoul (drop (14 + length jsonMeshMessageCount + 1) ?m) = 65536\<close>
    by (simp add: jsonMeshMessageCount_def strtoul_def isspace_def digitValue_def ULONG_MAX_def)
  have "getMeshMessageCount ?m 9 = Inl AssertionFailed"
    by (simp only: getMeshMessageCount_present [OF f] v Let_def) simp
  with s show ?thesis by simp
qed

section \<open>A composed field read back\<close>

lemma strchr_after_value:
  "ch \<notin> set v \<Longrightarrow> q \<noteq> ch \<Longrightarrow> strchr (v @ q # ch # rest) ch = Some (length v + 1)"
  using strchr_append_notin [of ch "v @ [q]" rest] by simp

lemma composed_field_comma:
  assumes k: "firstOccurrence (pre @ ident @ q # v @ q2 # CHR '','' # rest) ident (length pre)"
    and v: "CHR '','' \<notin> set v" and q2: "q2 \<noteq> CHR '',''"
  shows "fieldSpan (pre @ ident @ q # v @ q2 # CHR '','' # rest) ident
           (length pre + length ident + 1) (length pre + length ident + 1 + length v + 1)"
    and "substring (pre @ ident @ q # v @ q2 # CHR '','' # rest)
           (length pre + length ident + 1) (length pre + length ident + 1 + length v + 1 - 1) = v"
proof -
  let ?msg = "pre @ ident @ q # v @ q2 # CHR '','' # rest"
  let ?vs = "length pre + length ident + 1"
  have m: "?msg = (pre @ ident @ [q]) @ (v @ q2 # CHR '','' # rest)" by simp
  have d: "drop ?vs ?msg = v @ q2 # CHR '','' # rest"
    by (subst m, subst drop_append) simp
  have "strchr (drop ?vs ?msg) (CHR '','') = Some (length v + 1)"
    unfolding d using v q2 by (rule strchr_after_value)
  moreover have "?vs < length ?msg" by simp
  ultimately have "firstAtOrAfter ?msg (CHR '','') ?vs (?vs + length v + 1)"
    by (simp add: firstAtOrAfter_iff_strchr)
  with k show "fieldSpan ?msg ident ?vs (?vs + length v + 1)"
    unfolding fieldSpan_def by blast
  have "substring ?msg ?vs (?vs + length v) = take (length v) (drop ?vs ?msg)"
    by (subst substring_le) simp_all
  then show "substring ?msg ?vs (?vs + length v + 1 - 1) = v"
    unfolding d by simp
qed

lemma composed_field_brace:
  assumes k: "firstOccurrence (pre @ ident @ q # v @ q2 # CHR ''}'' # rest) ident (length pre)"
    and v: "CHR '','' \<notin> set v" "CHR ''}'' \<notin> set v"
    and q2: "q2 \<noteq> CHR '',''" "q2 \<noteq> CHR ''}''"
    and r: "CHR '','' \<notin> set rest"
  shows "fieldSpan (pre @ ident @ q # v @ q2 # CHR ''}'' # rest) ident
           (length pre + length ident + 1) (length pre + length ident + 1 + length v + 1)"
    and "substring (pre @ ident @ q # v @ q2 # CHR ''}'' # rest)
           (length pre + length ident + 1) (length pre + length ident + 1 + length v + 1 - 1) = v"
proof -
  let ?msg = "pre @ ident @ q # v @ q2 # CHR ''}'' # rest"
  let ?vs = "length pre + length ident + 1"
  have m: "?msg = (pre @ ident @ [q]) @ (v @ q2 # CHR ''}'' # rest)" by simp
  have d: "drop ?vs ?msg = v @ q2 # CHR ''}'' # rest"
    by (subst m, subst drop_append) simp
  have "strchr (drop ?vs ?msg) (CHR ''}'') = Some (length v + 1)"
    unfolding d using v(2) q2(2) by (rule strchr_after_value)
  moreover have "?vs < length ?msg" by simp
  ultimately have "firstAtOrAfter ?msg (CHR ''}'') ?vs (?vs + length v + 1)"
    by (simp add: firstAtOrAfter_iff_strchr)
  moreover have "CHR '','' \<notin> set (drop ?vs ?msg)"
    unfolding d using v(1) q2(1) r by simp
  ultimately show "fieldSpan ?msg ident ?vs (?vs + length v + 1)"
    using k unfolding fieldSpan_def by blast
  have "substring ?msg ?vs (?vs + length v) = take (length v) (drop ?vs ?msg)"
    by (subst substring_le) simp_all
  then show "substring ?msg ?vs (?vs + length v + 1 - 1) = v"
    unfolding d by simp
qed

section \<open>The encrypted connection info\<close>

lemma createEncryptedConnectionInfo_own_shape:
  \<open>createEncryptedConnectionInfo E h n p A B
     = (h @ ''{"arguments":{'' @ createJsonPair jsonNonce n @ createJsonPair jsonPassword p)
       @ jsonOwnSessionKey @ CHR ''"'' # uint64ToString E B @ CHR ''"'' # CHR '','' #
         createJsonEndPair jsonPeerSessionKey (uint64ToString E A)\<close>
  by (simp add: createEncryptedConnectionInfo_def createJsonPair_def)

lemma createEncryptedConnectionInfo_peer_shape:
  \<open>createEncryptedConnectionInfo E h n p A B
     = (h @ ''{"arguments":{'' @ createJsonPair jsonNonce n @ createJsonPair jsonPassword p
          @ createJsonPair jsonOwnSessionKey (uint64ToString E B))
       @ jsonPeerSessionKey @ CHR ''"'' # uint64ToString E A @ CHR ''"'' # CHR ''}'' # ''}''\<close>
  by (simp add: createEncryptedConnectionInfo_def createJsonPair_def createJsonEndPair_def)

lemma getOwnSessionKey_of_composed:
  assumes f: \<open>firstOccurrence (createEncryptedConnectionInfo E h n p A B) jsonOwnSessionKey
       (length (h @ ''{"arguments":{'' @ createJsonPair jsonNonce n
                @ createJsonPair jsonPassword p))\<close>
    and c: "CHR '','' \<notin> set (uint64ToString E B)"
  shows "getOwnSessionKey E (createEncryptedConnectionInfo E h n p A B) r
           = (True, stringToUint64 E (uint64ToString E B))"
proof -
  let ?pre = \<open>h @ ''{"arguments":{'' @ createJsonPair jsonNonce n @ createJsonPair jsonPassword p\<close>
  let ?rest = "createJsonEndPair jsonPeerSessionKey (uint64ToString E A)"
  let ?msg = \<open>?pre @ jsonOwnSessionKey @ CHR ''"'' # uint64ToString E B @ CHR ''"'' # CHR '','' # ?rest\<close>
  have e: "createEncryptedConnectionInfo E h n p A B = ?msg"
    by (rule createEncryptedConnectionInfo_own_shape)
  have k: "firstOccurrence ?msg jsonOwnSessionKey (length ?pre)" using f unfolding e .
  have q: \<open>CHR ''"'' \<noteq> CHR '',''\<close> by simp
  note s = composed_field_comma [OF k c q]
  from getOwnSessionKey_total [of ?msg E r] s(1)
  have "getOwnSessionKey E ?msg r
          = (True, stringToUint64 E (substring ?msg (length ?pre + length jsonOwnSessionKey + 1)
               (length ?pre + length jsonOwnSessionKey + 1 + length (uint64ToString E B) + 1 - 1)))"
    by blast
  then show ?thesis unfolding e s(2) .
qed

lemma getPeerSessionKey_of_composed:
  assumes f: \<open>firstOccurrence (createEncryptedConnectionInfo E h n p A B) jsonPeerSessionKey
       (length (h @ ''{"arguments":{'' @ createJsonPair jsonNonce n
                @ createJsonPair jsonPassword p
                @ createJsonPair jsonOwnSessionKey (uint64ToString E B)))\<close>
    and c: "CHR '','' \<notin> set (uint64ToString E A)" "CHR ''}'' \<notin> set (uint64ToString E A)"
  shows "getPeerSessionKey E (createEncryptedConnectionInfo E h n p A B) r
           = (True, stringToUint64 E (uint64ToString E A))"
proof -
  let ?pre = \<open>h @ ''{"arguments":{'' @ createJsonPair jsonNonce n @ createJsonPair jsonPassword p
                @ createJsonPair jsonOwnSessionKey (uint64ToString E B)\<close>
  let ?msg = \<open>?pre @ jsonPeerSessionKey @ CHR ''"'' # uint64ToString E A @ CHR ''"'' # CHR ''}'' # ''}''\<close>
  have e: "createEncryptedConnectionInfo E h n p A B = ?msg"
    by (rule createEncryptedConnectionInfo_peer_shape)
  have k: "firstOccurrence ?msg jsonPeerSessionKey (length ?pre)" using f unfolding e .
  have q: \<open>CHR ''"'' \<noteq> CHR '',''\<close> \<open>CHR ''"'' \<noteq> CHR ''}''\<close> by simp_all
  have r: "CHR '','' \<notin> set ''}''" by simp
  note s = composed_field_brace [OF k c q r]
  from getPeerSessionKey_total [of ?msg E r] s(1)
  have "getPeerSessionKey E ?msg r
          = (True, stringToUint64 E (substring ?msg (length ?pre + length jsonPeerSessionKey + 1)
               (length ?pre + length jsonPeerSessionKey + 1 + length (uint64ToString E A) + 1 - 1)))"
    by blast
  then show ?thesis unfolding e s(2) .
qed

lemma session_keys_swapped_first_occurrence:
  assumes \<open>firstOccurrence (createEncryptedConnectionInfo E h n p A B) jsonOwnSessionKey
       (length (h @ ''{"arguments":{'' @ createJsonPair jsonNonce n
                @ createJsonPair jsonPassword p))\<close>
    and \<open>firstOccurrence (createEncryptedConnectionInfo E h n p A B) jsonPeerSessionKey
       (length (h @ ''{"arguments":{'' @ createJsonPair jsonNonce n
                @ createJsonPair jsonPassword p
                @ createJsonPair jsonOwnSessionKey (uint64ToString E B)))\<close>
    and "CHR '','' \<notin> set (uint64ToString E B)"
    and "CHR '','' \<notin> set (uint64ToString E A)" "CHR ''}'' \<notin> set (uint64ToString E A)"
    and "stringToUint64 E (uint64ToString E A) = A" "stringToUint64 E (uint64ToString E B) = B"
  shows "getOwnSessionKey E (createEncryptedConnectionInfo E h n p A B) own = (True, B)
         \<and> getPeerSessionKey E (createEncryptedConnectionInfo E h n p A B) peer = (True, A)"
  using getOwnSessionKey_of_composed [OF assms(1) assms(3), of own]
    getPeerSessionKey_of_composed [OF assms(2) assms(4) assms(5), of peer] assms(6) assms(7)
  by simp


lemma noOccurrenceIn_Nil: "noOccurrenceIn p [] rest"
  by (simp add: noOccurrenceIn_def)

lemma noOccurrenceIn_Cons:
  "noOccurrenceIn p (c # s) rest \<longleftrightarrow> \<not> prefix p (c # s @ rest) \<and> noOccurrenceIn p s rest"
  by (simp add: noOccurrenceIn_def All_less_Suc2)

lemma noOccurrenceIn_append:
  "noOccurrenceIn p (s1 @ s2) rest \<longleftrightarrow>
     noOccurrenceIn p s1 (s2 @ rest) \<and> noOccurrenceIn p s2 rest"
  by (induction s1) (simp_all add: noOccurrenceIn_Nil noOccurrenceIn_Cons)

lemma name_not_across:
  assumes "\<not> sublist name v" "c \<notin> set name"
  shows "\<not> prefix (name @ t) (v @ c # r)"
proof
  assume p: "prefix (name @ t) (v @ c # r)"
  show False
  proof (cases "length name \<le> length v")
    case True
    from p have "prefix name (v @ c # r)" by (rule append_prefixD)
    with True have "prefix name v" by (auto simp: prefix_append)
    then have "sublist name v" by (rule prefix_imp_sublist)
    with assms(1) show False by simp
  next
    case False
    then have l: "length v < length name" by simp
    from p obtain z where z: "v @ c # r = (name @ t) @ z" by (auto simp: prefix_def)
    then have "(v @ c # r) ! length v = ((name @ t) @ z) ! length v" by simp
    then have "c = name ! length v" using l by (simp add: nth_append)
    with l assms(2) show False by (metis nth_mem)
  qed
qed

lemma name_not_inside:
  assumes "\<not> sublist name v" "c \<notin> set name"
  shows "noOccurrenceIn (q # name @ t) v (c # r)"
  unfolding noOccurrenceIn_def
proof (intro allI impI)
  fix j
  assume j: "j < length v"
  show "\<not> prefix (q # name @ t) (drop j (v @ c # r))"
  proof
    assume p: "prefix (q # name @ t) (drop j (v @ c # r))"
    from j have d: "drop j (v @ c # r) = v ! j # drop (Suc j) v @ c # r"
      by (simp add: Cons_nth_drop_Suc)
    from p have "prefix (name @ t) (drop (Suc j) v @ c # r)" unfolding d by simp
    moreover have "\<not> sublist name (drop (Suc j) v)"
      using assms(1) by (meson sublist_drop sublist_order.order_trans)
    ultimately show False using name_not_across [OF _ assms(2)] by blast
  qed
qed

lemma firstOccurrence_after:
  assumes "noOccurrenceIn p pre (p @ rest)"
  shows "firstOccurrence (pre @ p @ rest) p (length pre)"
  using assms by (simp add: firstOccurrence_def noOccurrenceIn_def)


lemma ownSK_inside:
  "\<not> sublist ''ownSK'' v \<Longrightarrow> c \<notin> set ''ownSK'' \<Longrightarrow> noOccurrenceIn jsonOwnSessionKey v (c # r)"
  using name_not_inside [of "''ownSK''" v c \<open>CHR ''"''\<close> \<open>''":''\<close> r]
  by (simp add: jsonOwnSessionKey_def)

lemma ownSK_across:
  \<open>\<not> sublist ''ownSK'' v \<Longrightarrow> c \<notin> set ''ownSK'' \<Longrightarrow> \<not> prefix ''ownSK":'' (v @ c # r)\<close>
  using name_not_across [of "''ownSK''" v c \<open>''":''\<close> r] by simp

lemma peerSK_inside:
  "\<not> sublist ''peerSK'' v \<Longrightarrow> c \<notin> set ''peerSK'' \<Longrightarrow> noOccurrenceIn jsonPeerSessionKey v (c # r)"
  using name_not_inside [of "''peerSK''" v c \<open>CHR ''"''\<close> \<open>''":''\<close> r]
  by (simp add: jsonPeerSessionKey_def)

lemma peerSK_across:
  \<open>\<not> sublist ''peerSK'' v \<Longrightarrow> c \<notin> set ''peerSK'' \<Longrightarrow> \<not> prefix ''peerSK":'' (v @ c # r)\<close>
  using name_not_across [of "''peerSK''" v c \<open>''":''\<close> r] by simp

lemma ownSK_first_in_connection_info:
  assumes "\<not> sublist ''ownSK'' h" "\<not> sublist ''ownSK'' n" "\<not> sublist ''ownSK'' p"
  shows \<open>firstOccurrence (createEncryptedConnectionInfo E h n p A B) jsonOwnSessionKey
       (length (h @ ''{"arguments":{'' @ createJsonPair jsonNonce n
                @ createJsonPair jsonPassword p))\<close>
proof -
  let ?F1 = \<open>''{"arguments":{"nonce":"''\<close>
  let ?F2 = \<open>''","password":"''\<close>
  let ?F3 = \<open>''",''\<close>
  let ?rest = \<open>CHR ''"'' # uint64ToString E B @ CHR ''"'' # CHR '','' #
         createJsonEndPair jsonPeerSessionKey (uint64ToString E A)\<close>
  let ?pre = "h @ ?F1 @ n @ ?F2 @ p @ ?F3"
  have pre: \<open>h @ ''{"arguments":{'' @ createJsonPair jsonNonce n @ createJsonPair jsonPassword p
              = ?pre\<close>
    by (simp add: createJsonPair_def jsonNonce_def jsonPassword_def)
  have 1: "noOccurrenceIn jsonOwnSessionKey h (?F1 @ n @ ?F2 @ p @ ?F3 @ jsonOwnSessionKey @ ?rest)"
    using assms(1) by (simp add: ownSK_inside)
  have 2: "noOccurrenceIn jsonOwnSessionKey ?F1 (n @ ?F2 @ p @ ?F3 @ jsonOwnSessionKey @ ?rest)"
    using assms(2)
    by (simp add: noOccurrenceIn_Cons noOccurrenceIn_Nil jsonOwnSessionKey_def ownSK_across)
  have 3: "noOccurrenceIn jsonOwnSessionKey n (?F2 @ p @ ?F3 @ jsonOwnSessionKey @ ?rest)"
    using assms(2) by (simp add: ownSK_inside)
  have 4: "noOccurrenceIn jsonOwnSessionKey ?F2 (p @ ?F3 @ jsonOwnSessionKey @ ?rest)"
    using assms(3)
    by (simp add: noOccurrenceIn_Cons noOccurrenceIn_Nil jsonOwnSessionKey_def ownSK_across)
  have 5: "noOccurrenceIn jsonOwnSessionKey p (?F3 @ jsonOwnSessionKey @ ?rest)"
    using assms(3) by (simp add: ownSK_inside)
  have 6: "noOccurrenceIn jsonOwnSessionKey ?F3 (jsonOwnSessionKey @ ?rest)"
    by (simp add: noOccurrenceIn_Cons noOccurrenceIn_Nil jsonOwnSessionKey_def)
  from 1 2 3 4 5 6 have "noOccurrenceIn jsonOwnSessionKey ?pre (jsonOwnSessionKey @ ?rest)"
    by (simp only: noOccurrenceIn_append append_assoc)
  then have "firstOccurrence (?pre @ jsonOwnSessionKey @ ?rest) jsonOwnSessionKey (length ?pre)"
    by (rule firstOccurrence_after)
  then show ?thesis
    unfolding createEncryptedConnectionInfo_own_shape pre .
qed

lemma peerSK_first_in_connection_info:
  assumes "\<not> sublist ''peerSK'' h" "\<not> sublist ''peerSK'' n" "\<not> sublist ''peerSK'' p"
    "\<not> sublist ''peerSK'' (uint64ToString E B)"
  shows \<open>firstOccurrence (createEncryptedConnectionInfo E h n p A B) jsonPeerSessionKey
       (length (h @ ''{"arguments":{'' @ createJsonPair jsonNonce n
                @ createJsonPair jsonPassword p
                @ createJsonPair jsonOwnSessionKey (uint64ToString E B)))\<close>
proof -
  let ?F1 = \<open>''{"arguments":{"nonce":"''\<close>
  let ?F2 = \<open>''","password":"''\<close>
  let ?F3 = \<open>''","ownSK":"''\<close>
  let ?F4 = \<open>''",''\<close>
  let ?b = "uint64ToString E B"
  let ?rest = \<open>CHR ''"'' # uint64ToString E A @ CHR ''"'' # CHR ''}'' # ''}''\<close>
  let ?pre = "h @ ?F1 @ n @ ?F2 @ p @ ?F3 @ ?b @ ?F4"
  have pre: \<open>h @ ''{"arguments":{'' @ createJsonPair jsonNonce n @ createJsonPair jsonPassword p
                @ createJsonPair jsonOwnSessionKey ?b = ?pre\<close>
    by (simp add: createJsonPair_def jsonNonce_def jsonPassword_def jsonOwnSessionKey_def)
  have 1: "noOccurrenceIn jsonPeerSessionKey h
             (?F1 @ n @ ?F2 @ p @ ?F3 @ ?b @ ?F4 @ jsonPeerSessionKey @ ?rest)"
    using assms(1) by (simp add: peerSK_inside)
  have 2: "noOccurrenceIn jsonPeerSessionKey ?F1
             (n @ ?F2 @ p @ ?F3 @ ?b @ ?F4 @ jsonPeerSessionKey @ ?rest)"
    using assms(2)
    by (simp add: noOccurrenceIn_Cons noOccurrenceIn_Nil jsonPeerSessionKey_def peerSK_across)
  have 3: "noOccurrenceIn jsonPeerSessionKey n
             (?F2 @ p @ ?F3 @ ?b @ ?F4 @ jsonPeerSessionKey @ ?rest)"
    using assms(2) by (simp add: peerSK_inside)
  have 4: "noOccurrenceIn jsonPeerSessionKey ?F2
             (p @ ?F3 @ ?b @ ?F4 @ jsonPeerSessionKey @ ?rest)"
    using assms(3)
    by (simp add: noOccurrenceIn_Cons noOccurrenceIn_Nil jsonPeerSessionKey_def peerSK_across)
  have 5: "noOccurrenceIn jsonPeerSessionKey p (?F3 @ ?b @ ?F4 @ jsonPeerSessionKey @ ?rest)"
    using assms(3) by (simp add: peerSK_inside)
  have 6: "noOccurrenceIn jsonPeerSessionKey ?F3 (?b @ ?F4 @ jsonPeerSessionKey @ ?rest)"
    using assms(4)
    by (simp add: noOccurrenceIn_Cons noOccurrenceIn_Nil jsonPeerSessionKey_def peerSK_across)
  have 7: "noOccurrenceIn jsonPeerSessionKey ?b (?F4 @ jsonPeerSessionKey @ ?rest)"
    using assms(4) by (simp add: peerSK_inside)
  have 8: "noOccurrenceIn jsonPeerSessionKey ?F4 (jsonPeerSessionKey @ ?rest)"
    by (simp add: noOccurrenceIn_Cons noOccurrenceIn_Nil jsonPeerSessionKey_def)
  from 1 2 3 4 5 6 7 8
  have "noOccurrenceIn jsonPeerSessionKey ?pre (jsonPeerSessionKey @ ?rest)"
    by (simp only: noOccurrenceIn_append append_assoc)
  then have "firstOccurrence (?pre @ jsonPeerSessionKey @ ?rest) jsonPeerSessionKey (length ?pre)"
    by (rule firstOccurrence_after)
  then show ?thesis
    unfolding createEncryptedConnectionInfo_peer_shape pre .
qed

text \<open>
  Claim C1, as the code has it. \<open>createEncryptedConnectionInfo\<close> writes the peer session
  key argument under \<open>ownSK\<close> and the own session key argument under \<open>peerSK\<close>, and the
  getters read a field at the first occurrence of its identifier. When the header, the
  nonce and the password spell neither field name, the rendering of the key written under
  \<open>ownSK\<close> holds no comma and does not spell \<open>peerSK\<close>, the rendering of the key written
  under \<open>peerSK\<close> holds no comma and no closing brace, and the conversion functions read
  back what they rendered, then \<open>getOwnSessionKey\<close> returns true with the peer session key
  argument and \<open>getPeerSessionKey\<close> returns true with the own session key argument.
\<close>

theorem session_keys_swapped:
  assumes "\<not> sublist ''ownSK'' h" "\<not> sublist ''ownSK'' n" "\<not> sublist ''ownSK'' p"
    and "\<not> sublist ''peerSK'' h" "\<not> sublist ''peerSK'' n" "\<not> sublist ''peerSK'' p"
    and "\<not> sublist ''peerSK'' (uint64ToString E B)"
    and "CHR '','' \<notin> set (uint64ToString E B)"
    and "CHR '','' \<notin> set (uint64ToString E A)" "CHR ''}'' \<notin> set (uint64ToString E A)"
    and "stringToUint64 E (uint64ToString E A) = A" "stringToUint64 E (uint64ToString E B) = B"
  shows "getOwnSessionKey E (createEncryptedConnectionInfo E h n p A B) own = (True, B)
         \<and> getPeerSessionKey E (createEncryptedConnectionInfo E h n p A B) peer = (True, A)"
proof -
  have "getOwnSessionKey E (createEncryptedConnectionInfo E h n p A B) own
          = (True, stringToUint64 E (uint64ToString E B))"
    using ownSK_first_in_connection_info [OF assms(1-3)] assms(8)
    by (rule getOwnSessionKey_of_composed)
  moreover have "getPeerSessionKey E (createEncryptedConnectionInfo E h n p A B) peer
          = (True, stringToUint64 E (uint64ToString E A))"
    using peerSK_first_in_connection_info [OF assms(4-7)] assms(9,10)
    by (rule getPeerSessionKey_of_composed)
  ultimately show ?thesis using assms(11,12) by simp
qed

lemma sample_connection_info:
  \<open>createEncryptedConnectionInfo sampleCollaborators ''EncryptedCI:'' ''1F2'' ''abc'' 418 948
     = ''EncryptedCI:{"arguments":{"nonce":"1F2","password":"abc","ownSK":"948","peerSK":"418"}}''\<close>
  by (simp add: createEncryptedConnectionInfo_def createJsonPair_def createJsonEndPair_def
      sampleCollaborators_def decimalString.simps jsonNonce_def jsonPassword_def
      jsonOwnSessionKey_def jsonPeerSessionKey_def)

theorem session_keys_swapped_witness:
  \<open>\<not> sublist ''ownSK'' ''EncryptedCI:'' \<and> \<not> sublist ''ownSK'' ''1F2'' \<and> \<not> sublist ''ownSK'' ''abc''
   \<and> \<not> sublist ''peerSK'' ''EncryptedCI:'' \<and> \<not> sublist ''peerSK'' ''1F2''
   \<and> \<not> sublist ''peerSK'' ''abc''
   \<and> uint64ToString sampleCollaborators 948 = ''948''
   \<and> uint64ToString sampleCollaborators 418 = ''418''
   \<and> stringToUint64 sampleCollaborators ''948'' = 948
   \<and> stringToUint64 sampleCollaborators ''418'' = 418
   \<and> createEncryptedConnectionInfo sampleCollaborators ''EncryptedCI:'' ''1F2'' ''abc'' 418 948
       = ''EncryptedCI:{"arguments":{"nonce":"1F2","password":"abc","ownSK":"948","peerSK":"418"}}''
   \<and> getOwnSessionKey sampleCollaborators
         (createEncryptedConnectionInfo sampleCollaborators ''EncryptedCI:'' ''1F2'' ''abc'' 418 948) 0
       = (True, 948)
   \<and> getPeerSessionKey sampleCollaborators
         (createEncryptedConnectionInfo sampleCollaborators ''EncryptedCI:'' ''1F2'' ''abc'' 418 948) 0
       = (True, 418)\<close>
proof -
  let ?E = sampleCollaborators
  have uB: "uint64ToString ?E 948 = ''948''"
    by (simp add: sampleCollaborators_def decimalString.simps)
  have uA: "uint64ToString ?E 418 = ''418''"
    by (simp add: sampleCollaborators_def decimalString.simps)
  have sB: "stringToUint64 ?E ''948'' = 948"
    by (simp add: sampleCollaborators_def leadingDigitsValue_def isDecimalDigit_def)
  have sA: "stringToUint64 ?E ''418'' = 418"
    by (simp add: sampleCollaborators_def leadingDigitsValue_def isDecimalDigit_def)
  have o: "\<not> sublist ''ownSK'' ''EncryptedCI:''" "\<not> sublist ''ownSK'' ''1F2''"
    "\<not> sublist ''ownSK'' ''abc''"
    by (simp_all add: strstr_None_iff [symmetric])
  have p: "\<not> sublist ''peerSK'' ''EncryptedCI:''" "\<not> sublist ''peerSK'' ''1F2''"
    "\<not> sublist ''peerSK'' ''abc''" "\<not> sublist ''peerSK'' ''948''"
    by (simp_all add: strstr_None_iff [symmetric])
  have "getOwnSessionKey ?E
         (createEncryptedConnectionInfo ?E ''EncryptedCI:'' ''1F2'' ''abc'' 418 948) 0 = (True, 948)
       \<and> getPeerSessionKey ?E
         (createEncryptedConnectionInfo ?E ''EncryptedCI:'' ''1F2'' ''abc'' 418 948) 0 = (True, 418)"
  proof (rule session_keys_swapped)
    show "\<not> sublist ''ownSK'' ''EncryptedCI:''" "\<not> sublist ''ownSK'' ''1F2''"
      "\<not> sublist ''ownSK'' ''abc''" by (rule o)+
    show "\<not> sublist ''peerSK'' ''EncryptedCI:''" "\<not> sublist ''peerSK'' ''1F2''"
      "\<not> sublist ''peerSK'' ''abc''" by (rule p)+
    show "\<not> sublist ''peerSK'' (uint64ToString ?E 948)" unfolding uB by (rule p)
    show "CHR '','' \<notin> set (uint64ToString ?E 948)" unfolding uB by simp
    show "CHR '','' \<notin> set (uint64ToString ?E 418)" unfolding uA by simp
    show "CHR ''}'' \<notin> set (uint64ToString ?E 418)" unfolding uA by simp
    show "stringToUint64 ?E (uint64ToString ?E 418) = 418" unfolding uA by (rule sA)
    show "stringToUint64 ?E (uint64ToString ?E 948) = 948" unfolding uB by (rule sB)
  qed
  with o p uB uA sB sA sample_connection_info show ?thesis by blast
qed

text \<open>
  The claim as it is worded fails when the header spells the \<open>ownSK\<close> identifier: the
  nonce and the password are as the claim wants them, and \<open>getOwnSessionKey\<close> reads 7 from
  the header instead of the key 2 that the composer wrote.
\<close>

theorem session_keys_header_counterexample:
  \<open>CHR '','' \<notin> set ''1F2'' \<and> CHR ''}'' \<notin> set ''1F2''
   \<and> CHR '','' \<notin> set ''abc'' \<and> CHR ''}'' \<notin> set ''abc''
   \<and> getOwnSessionKey sampleCollaborators
         (createEncryptedConnectionInfo sampleCollaborators ''"ownSK":"7",'' ''1F2'' ''abc'' 1 2) 0
       = (True, 7)
   \<and> getOwnSessionKey sampleCollaborators
         (createEncryptedConnectionInfo sampleCollaborators ''"ownSK":"7",'' ''1F2'' ''abc'' 1 2) 0
       \<noteq> (True, 2)\<close>
proof -
  have m: \<open>createEncryptedConnectionInfo sampleCollaborators ''"ownSK":"7",'' ''1F2'' ''abc'' 1 2
     = ''"ownSK":"7",{"arguments":{"nonce":"1F2","password":"abc","ownSK":"2","peerSK":"1"}}''\<close>
    by (simp add: createEncryptedConnectionInfo_def createJsonPair_def createJsonEndPair_def
      sampleCollaborators_def decimalString.simps jsonNonce_def jsonPassword_def
      jsonOwnSessionKey_def jsonPeerSessionKey_def)
  have \<open>getOwnSessionKey sampleCollaborators
          ''"ownSK":"7",{"arguments":{"nonce":"1F2","password":"abc","ownSK":"2","peerSK":"1"}}'' 0
        = (True, 7)\<close>
    by (simp add: getOwnSessionKey_def getStartIndex_def getEndIndex_def indexOf_def
        indexOfChar_def to_unsigned_def substring_def jsonOwnSessionKey_def
        sampleCollaborators_def leadingDigitsValue_def isDecimalDigit_def)
  then show ?thesis unfolding m by simp
qed

section \<open>The encryption request with HMAC\<close>

lemma createEncryptionRequestHmacMessage_shape:
  \<open>createEncryptionRequestHmacMessage E h n key keyLength d
     = (createEncryptionRequestIntro E h d @ createJsonPair jsonNonce n)
       @ jsonHmac @ CHR ''"''
         # createMeshHmac E (macToString E (macAddress E) @ macToString E (softAPmacAddress E)
              @ createEncryptionRequestIntro E h d @ createJsonPair jsonNonce n) key keyLength
         @ CHR ''"'' # CHR ''}'' # ''}''\<close>
  by (simp add: createEncryptionRequestHmacMessage_def createJsonEndPair_def Let_def)

lemma composed_hmac_message_verifies_first_occurrence:
  assumes \<open>firstOccurrence (createEncryptionRequestHmacMessage E h n key keyLength d) jsonHmac
       (length (createEncryptionRequestIntro E h d @ createJsonPair jsonNonce n))\<close>
    and "CHR '','' \<notin> set (createMeshHmac E
            (macToString E (macAddress E) @ macToString E (softAPmacAddress E)
             @ createEncryptionRequestIntro E h d @ createJsonPair jsonNonce n) key keyLength)"
    and "CHR ''}'' \<notin> set (createMeshHmac E
            (macToString E (macAddress E) @ macToString E (softAPmacAddress E)
             @ createEncryptionRequestIntro E h d @ createJsonPair jsonNonce n) key keyLength)"
    and "length (createMeshHmac E
            (macToString E (macAddress E) @ macToString E (softAPmacAddress E)
             @ createEncryptionRequestIntro E h d @ createJsonPair jsonNonce n) key keyLength)
         = 2 * SHA256_NATURAL_LENGTH"
    and "verifyMeshHmac E
           (macToString E (macAddress E) @ macToString E (softAPmacAddress E)
            @ createEncryptionRequestIntro E h d @ createJsonPair jsonNonce n)
           (createMeshHmac E
              (macToString E (macAddress E) @ macToString E (softAPmacAddress E)
               @ createEncryptionRequestIntro E h d @ createJsonPair jsonNonce n) key keyLength)
           key keyLength"
  shows "verifyEncryptionRequestHmac E (createEncryptionRequestHmacMessage E h n key keyLength d)
           (macAddress E) (softAPmacAddress E) key keyLength"
proof -
  let ?main = "createEncryptionRequestIntro E h d @ createJsonPair jsonNonce n"
  let ?tag = "createMeshHmac E
            (macToString E (macAddress E) @ macToString E (softAPmacAddress E) @ ?main)
            key keyLength"
  let ?msg = \<open>?main @ jsonHmac @ CHR ''"'' # ?tag @ CHR ''"'' # CHR ''}'' # ''}''\<close>
  have e: "createEncryptionRequestHmacMessage E h n key keyLength d = ?msg"
    using createEncryptionRequestHmacMessage_shape [of E h n key keyLength d] by simp
  have k: "firstOccurrence ?msg jsonHmac (length ?main)" using assms(1) unfolding e .
  have c: "CHR '','' \<notin> set ?tag" "CHR ''}'' \<notin> set ?tag" using assms(2,3) by simp_all
  have q: \<open>CHR ''"'' \<noteq> CHR '',''\<close> \<open>CHR ''"'' \<noteq> CHR ''}''\<close> by simp_all
  have r: "CHR '','' \<notin> set ''}''" by simp
  note s = composed_field_brace [OF k c q r]
  from getHmac_total [of ?msg "[]"] s(1)
  have "getHmac ?msg [] = (True, substring ?msg (length ?main + length jsonHmac + 1)
               (length ?main + length jsonHmac + 1 + length ?tag + 1 - 1))"
    by blast
  then have g: "getHmac ?msg [] = (True, ?tag)" unfolding s(2) .
  have t: "take (length ?main) ?msg = ?main" by simp
  have "verifyEncryptionRequestHmac E ?msg (macAddress E) (softAPmacAddress E) key keyLength
          \<longleftrightarrow> length ?tag = 2 * SHA256_NATURAL_LENGTH
              \<and> verifyMeshHmac E (macToString E (macAddress E) @ macToString E (softAPmacAddress E)
                    @ take (length ?main) ?msg) ?tag key keyLength"
    using g k by (rule verifyEncryptionRequestHmac_extracted)
  then show ?thesis unfolding e t using assms(4,5) by simp
qed


lemma hmac_inside:
  "\<not> sublist ''hmac'' v \<Longrightarrow> c \<notin> set ''hmac'' \<Longrightarrow> noOccurrenceIn jsonHmac v (c # r)"
  using name_not_inside [of "''hmac''" v c \<open>CHR ''"''\<close> \<open>''":''\<close> r]
  by (simp add: jsonHmac_def)

lemma hmac_across:
  \<open>\<not> sublist ''hmac'' v \<Longrightarrow> c \<notin> set ''hmac'' \<Longrightarrow> \<not> prefix ''hmac":'' (v @ c # r)\<close>
  using name_not_across [of "''hmac''" v c \<open>''":''\<close> r] by simp

lemma decimal_digits_no_hmac:
  assumes "\<forall>c \<in> set s. isDecimalDigit c"
  shows "\<not> sublist ''hmac'' s"
proof
  assume "sublist ''hmac'' s"
  then have "set ''hmac'' \<subseteq> set s" by (rule set_mono_sublist)
  then have "CHR ''h'' \<in> set s" by simp
  with assms have "isDecimalDigit (CHR ''h'')" by blast
  then show False by (simp add: isDecimalDigit_def)
qed

lemma hmac_first_in_request:
  assumes "\<not> sublist ''hmac'' h" "\<not> sublist ''hmac'' n"
  shows "firstOccurrence (createEncryptionRequestHmacMessage E h n key keyLength d) jsonHmac
       (length (createEncryptionRequestIntro E h d @ createJsonPair jsonNonce n))"
proof -
  let ?tag = "createMeshHmac E (macToString E (macAddress E) @ macToString E (softAPmacAddress E)
              @ createEncryptionRequestIntro E h d @ createJsonPair jsonNonce n) key keyLength"
  let ?rest = \<open>CHR ''"'' # ?tag @ CHR ''"'' # CHR ''}'' # ''}''\<close>
  let ?N = \<open>''"nonce":"''\<close>
  let ?F = \<open>''",''\<close>
  have n1: "noOccurrenceIn jsonHmac ?N (n @ ?F @ jsonHmac @ ?rest)"
    using assms(2)
    by (simp add: noOccurrenceIn_Cons noOccurrenceIn_Nil jsonHmac_def hmac_across)
  have n2: "noOccurrenceIn jsonHmac n (?F @ jsonHmac @ ?rest)"
    using assms(2) by (simp add: hmac_inside)
  have n3: "noOccurrenceIn jsonHmac ?F (jsonHmac @ ?rest)"
    by (simp add: noOccurrenceIn_Cons noOccurrenceIn_Nil jsonHmac_def)
  show ?thesis
  proof (cases "h = temporaryEncryptionRequestHeader E")
    case True
    let ?G = \<open>''{"arguments":{"duration":"''\<close>
    let ?dec = "String_uint32 d"
    let ?pre = "h @ ?G @ ?dec @ ?F @ ?N @ n @ ?F"
    have pre: "createEncryptionRequestIntro E h d @ createJsonPair jsonNonce n = ?pre"
      using True
      by (simp add: createEncryptionRequestIntro_def createJsonPair_def jsonNonce_def
          jsonDuration_def)
    have dd: "\<not> sublist ''hmac'' ?dec"
      by (rule decimal_digits_no_hmac) (simp add: String_uint32_def decimalString_digits)
    have 1: "noOccurrenceIn jsonHmac h (?G @ ?dec @ ?F @ ?N @ n @ ?F @ jsonHmac @ ?rest)"
      using assms(1) by (simp add: hmac_inside)
    have 2: "noOccurrenceIn jsonHmac ?G (?dec @ ?F @ ?N @ n @ ?F @ jsonHmac @ ?rest)"
      using dd by (simp add: noOccurrenceIn_Cons noOccurrenceIn_Nil jsonHmac_def hmac_across)
    have 3: "noOccurrenceIn jsonHmac ?dec (?F @ ?N @ n @ ?F @ jsonHmac @ ?rest)"
      using dd by (simp add: hmac_inside)
    have 4: "noOccurrenceIn jsonHmac ?F (?N @ n @ ?F @ jsonHmac @ ?rest)"
      by (simp add: noOccurrenceIn_Cons noOccurrenceIn_Nil jsonHmac_def)
    from 1 2 3 4 n1 n2 n3
    have "noOccurrenceIn jsonHmac ?pre (jsonHmac @ ?rest)"
      by (simp only: noOccurrenceIn_append append_assoc)
    then have "firstOccurrence (?pre @ jsonHmac @ ?rest) jsonHmac (length ?pre)"
      by (rule firstOccurrence_after)
    then show ?thesis
      unfolding createEncryptionRequestHmacMessage_shape pre .
  next
    case False
    let ?G = \<open>''{"arguments":{''\<close>
    let ?pre = "h @ ?G @ ?N @ n @ ?F"
    have pre: "createEncryptionRequestIntro E h d @ createJsonPair jsonNonce n = ?pre"
      using False
      by (simp add: createEncryptionRequestIntro_def createJsonPair_def jsonNonce_def)
    have 1: "noOccurrenceIn jsonHmac h (?G @ ?N @ n @ ?F @ jsonHmac @ ?rest)"
      using assms(1) by (simp add: hmac_inside)
    have 2: "noOccurrenceIn jsonHmac ?G (?N @ n @ ?F @ jsonHmac @ ?rest)"
      by (simp add: noOccurrenceIn_Cons noOccurrenceIn_Nil jsonHmac_def)
    from 1 2 n1 n2 n3
    have "noOccurrenceIn jsonHmac ?pre (jsonHmac @ ?rest)"
      by (simp only: noOccurrenceIn_append append_assoc)
    then have "firstOccurrence (?pre @ jsonHmac @ ?rest) jsonHmac (length ?pre)"
      by (rule firstOccurrence_after)
    then show ?thesis
      unfolding createEncryptionRequestHmacMessage_shape pre .
  qed
qed

text \<open>
  Claim C2, as the code has it. \<open>verifyEncryptionRequestHmac\<close> reads the tag at the first
  occurrence of the hmac identifier and takes the message before that occurrence as the
  authenticated body. When neither the header nor the nonce spells the field name
  \<open>hmac\<close>, the tag that \<open>createMeshHmac\<close> made for the local addresses and the message
  body holds no comma and no closing brace and is \<open>2 * SHA256_NATURAL_LENGTH\<close> characters
  long, and \<open>verifyMeshHmac\<close> accepts that tag for the input it was made from, then the
  message of \<open>createEncryptionRequestHmacMessage\<close> verifies against the local station and
  access point addresses.
\<close>

theorem composed_hmac_message_verifies:
  assumes "\<not> sublist ''hmac'' h" "\<not> sublist ''hmac'' n"
    and "CHR '','' \<notin> set (createMeshHmac E
            (macToString E (macAddress E) @ macToString E (softAPmacAddress E)
             @ createEncryptionRequestIntro E h d @ createJsonPair jsonNonce n) key keyLength)"
    and "CHR ''}'' \<notin> set (createMeshHmac E
            (macToString E (macAddress E) @ macToString E (softAPmacAddress E)
             @ createEncryptionRequestIntro E h d @ createJsonPair jsonNonce n) key keyLength)"
    and "length (createMeshHmac E
            (macToString E (macAddress E) @ macToString E (softAPmacAddress E)
             @ createEncryptionRequestIntro E h d @ createJsonPair jsonNonce n) key keyLength)
         = 2 * SHA256_NATURAL_LENGTH"
    and "verifyMeshHmac E
           (macToString E (macAddress E) @ macToString E (softAPmacAddress E)
            @ createEncryptionRequestIntro E h d @ createJsonPair jsonNonce n)
           (createMeshHmac E
              (macToString E (macAddress E) @ macToString E (softAPmacAddress E)
               @ createEncryptionRequestIntro E h d @ createJsonPair jsonNonce n) key keyLength)
           key keyLength"
  shows "verifyEncryptionRequestHmac E (createEncryptionRequestHmacMessage E h n key keyLength d)
           (macAddress E) (softAPmacAddress E) key keyLength"
  using hmac_first_in_request [OF assms(1,2)] assms(3-6)
  by (rule composed_hmac_message_verifies_first_occurrence)

lemma sample_hmac_accepts:
  "verifyMeshHmac sampleCollaborators m (createMeshHmac sampleCollaborators m key keyLength)
     key keyLength
   \<and> length (createMeshHmac sampleCollaborators m key keyLength) = 2 * SHA256_NATURAL_LENGTH"
  by (simp add: sampleCollaborators_def sampleHmac_def SHA256_NATURAL_LENGTH_def)

lemma sample_request_intro:
  \<open>createEncryptionRequestIntro sampleCollaborators ''temporary'' 5000
       @ createJsonPair jsonNonce ''1F2''
     = ''temporary{"arguments":{"duration":"5000","nonce":"1F2",''\<close>
  by (simp add: createEncryptionRequestIntro_def createJsonPair_def sampleCollaborators_def
      String_uint32_def decimalString.simps jsonDuration_def jsonNonce_def)

lemma sample_request_tag:
  \<open>createMeshHmac sampleCollaborators
       (macToString sampleCollaborators (macAddress sampleCollaborators)
        @ macToString sampleCollaborators (softAPmacAddress sampleCollaborators)
        @ ''temporary{"arguments":{"duration":"5000","nonce":"1F2",'') [1, 2, 3] 3
     = ''23456789AB34567823456789AB34567823456789AB34567823456789AB345678''\<close>
  by (simp add: sampleCollaborators_def sampleHmac_def hexByte_def)

theorem composed_hmac_message_verifies_witness:
  \<open>\<not> sublist ''hmac'' ''temporary'' \<and> \<not> sublist ''hmac'' ''1F2''
   \<and> createEncryptionRequestHmacMessage sampleCollaborators ''temporary'' ''1F2'' [1, 2, 3] 3 5000
     = ''temporary{"arguments":{"duration":"5000","nonce":"1F2","hmac":"23456789AB34567823456789AB34567823456789AB34567823456789AB345678"}}''
   \<and> verifyEncryptionRequestHmac sampleCollaborators
        (createEncryptionRequestHmacMessage sampleCollaborators ''temporary'' ''1F2'' [1, 2, 3] 3 5000)
        (macAddress sampleCollaborators) (softAPmacAddress sampleCollaborators) [1, 2, 3] 3\<close>
proof -
  let ?E = sampleCollaborators
  let ?m = \<open>''temporary{"arguments":{"duration":"5000","nonce":"1F2","hmac":"23456789AB34567823456789AB34567823456789AB34567823456789AB345678"}}''\<close>
  note i = sample_request_intro
  note t = sample_request_tag
  have m: "createEncryptionRequestHmacMessage ?E ''temporary'' ''1F2'' [1, 2, 3] 3 5000 = ?m"
    unfolding createEncryptionRequestHmacMessage_shape i t
    by (simp add: jsonHmac_def)
  have h: "\<not> sublist ''hmac'' ''temporary''" "\<not> sublist ''hmac'' ''1F2''"
    by (simp_all add: strstr_None_iff [symmetric])
  have "verifyEncryptionRequestHmac ?E
          (createEncryptionRequestHmacMessage ?E ''temporary'' ''1F2'' [1, 2, 3] 3 5000)
          (macAddress ?E) (softAPmacAddress ?E) [1, 2, 3] 3"
  proof (rule composed_hmac_message_verifies)
    show "\<not> sublist ''hmac'' ''temporary''" "\<not> sublist ''hmac'' ''1F2''" by (rule h)+
    show "CHR '','' \<notin> set (createMeshHmac ?E
            (macToString ?E (macAddress ?E) @ macToString ?E (softAPmacAddress ?E)
             @ createEncryptionRequestIntro ?E ''temporary'' 5000
             @ createJsonPair jsonNonce ''1F2'') [1, 2, 3] 3)"
      unfolding i t by simp
    show "CHR ''}'' \<notin> set (createMeshHmac ?E
            (macToString ?E (macAddress ?E) @ macToString ?E (softAPmacAddress ?E)
             @ createEncryptionRequestIntro ?E ''temporary'' 5000
             @ createJsonPair jsonNonce ''1F2'') [1, 2, 3] 3)"
      unfolding i t by simp
    show "length (createMeshHmac ?E
            (macToString ?E (macAddress ?E) @ macToString ?E (softAPmacAddress ?E)
             @ createEncryptionRequestIntro ?E ''temporary'' 5000
             @ createJsonPair jsonNonce ''1F2'') [1, 2, 3] 3) = 2 * SHA256_NATURAL_LENGTH"
      by (simp add: sample_hmac_accepts)
    show "verifyMeshHmac ?E
           (macToString ?E (macAddress ?E) @ macToString ?E (softAPmacAddress ?E)
            @ createEncryptionRequestIntro ?E ''temporary'' 5000
            @ createJsonPair jsonNonce ''1F2'')
           (createMeshHmac ?E
              (macToString ?E (macAddress ?E) @ macToString ?E (softAPmacAddress ?E)
               @ createEncryptionRequestIntro ?E ''temporary'' 5000
               @ createJsonPair jsonNonce ''1F2'') [1, 2, 3] 3)
           [1, 2, 3] 3"
      by (simp add: sample_hmac_accepts)
  qed
  with m h show ?thesis by simp
qed

text \<open>
  The claim as it is worded fails when the header spells the hmac identifier. The
  primitives of \<open>sampleCollaborators\<close> meet the claim's hypotheses for every input
  (\<open>sample_hmac_accepts\<close>) and the nonce is as the claim wants it, but the verifier reads
  its tag at the header and rejects the message.
\<close>

theorem composed_hmac_header_counterexample:
  \<open>CHR '','' \<notin> set ''1F2'' \<and> CHR ''}'' \<notin> set ''1F2'' \<and> \<not> sublist jsonHmac ''1F2''
   \<and> getHmac (createEncryptionRequestHmacMessage sampleCollaborators ''"hmac":'' ''1F2''
                [1, 2, 3] 3 5000) []
       = (True, ''"arguments":{"nonce":"1F2'')
   \<and> \<not> verifyEncryptionRequestHmac sampleCollaborators
        (createEncryptionRequestHmacMessage sampleCollaborators ''"hmac":'' ''1F2'' [1, 2, 3] 3 5000)
        (macAddress sampleCollaborators) (softAPmacAddress sampleCollaborators) [1, 2, 3] 3\<close>
proof -
  let ?E = sampleCollaborators
  let ?msg = \<open>createEncryptionRequestHmacMessage ?E ''"hmac":'' ''1F2'' [1, 2, 3] 3 5000\<close>
  have i: \<open>createEncryptionRequestIntro ?E ''"hmac":'' 5000 @ createJsonPair jsonNonce ''1F2''
             = ''"hmac":{"arguments":{"nonce":"1F2",''\<close>
    by (simp add: createEncryptionRequestIntro_def createJsonPair_def sampleCollaborators_def
        jsonNonce_def)
  have g: \<open>getHmac ?msg [] = (True, ''"arguments":{"nonce":"1F2'')\<close>
    unfolding createEncryptionRequestHmacMessage_shape i
    by (simp add: getHmac_def getStartIndex_def getEndIndex_def indexOf_def indexOfChar_def
        to_unsigned_def substring_def jsonHmac_def)
  have n: "\<not> sublist jsonHmac ''1F2''"
    by (simp add: strstr_None_iff [symmetric] jsonHmac_def)
  have "\<not> verifyEncryptionRequestHmac ?E ?msg (macAddress ?E) (softAPmacAddress ?E) [1, 2, 3] 3"
    by (simp add: verifyEncryptionRequestHmac_def g SHA256_NATURAL_LENGTH_def Let_def)
  with g n show ?thesis by simp
qed

end
